theory Spec2Isabelle
  imports Main
begin

section \<open>Python values, exceptions and effects\<close>

text \<open>
  The scripts of the repository are dynamically typed Python over decoded JSON. A value is
  a \<open>pyval\<close>: \<open>PNone\<close> is Python's \<open>None\<close> (and JSON \<open>null\<close>), a dictionary is an
  association list with string keys, read with \<open>map_of\<close> (the keys of a Python dictionary
  are distinct). Python's \<open>==\<close> is modelled by HOL equality: the values the scripts compare
  are names and identifiers, that is strings or \<open>None\<close>.
\<close>

datatype pyval =
    PNone
  | PBool bool
  | PInt int
  | PStr string
  | PList "pyval list"
  | PDict "(string \<times> pyval) list"

text \<open>
  The exceptions that can reach the scripts. \<open>ConnectionError\<close>, \<open>Timeout\<close> and
  \<open>HTTPError\<close> are the subclasses of \<open>requests.RequestException\<close>; \<open>ClientError\<close> is
  botocore's; \<open>KeyboardInterrupt\<close> and \<open>SystemExit\<close> derive from \<open>BaseException\<close> only,
  so \<open>except Exception\<close> does not catch them.
\<close>

datatype py_exn =
    ConnectionError
  | Timeout
  | HTTPError
  | ClientError
  | AttributeError
  | KeyError
  | TypeError
  | ValueError
  | OverflowError
  | ImportError
  | EOFError
  | KeyboardInterrupt
  | SystemExit int

fun is_RequestException :: "py_exn \<Rightarrow> bool" where
  "is_RequestException ConnectionError = True"
| "is_RequestException Timeout = True"
| "is_RequestException HTTPError = True"
| "is_RequestException _ = False"

fun is_ClientError :: "py_exn \<Rightarrow> bool" where
  "is_ClientError ClientError = True"
| "is_ClientError _ = False"

fun is_KeyboardInterrupt :: "py_exn \<Rightarrow> bool" where
  "is_KeyboardInterrupt KeyboardInterrupt = True"
| "is_KeyboardInterrupt _ = False"

fun is_Exception :: "py_exn \<Rightarrow> bool" where
  "is_Exception KeyboardInterrupt = False"
| "is_Exception (SystemExit _) = False"
| "is_Exception _ = True"

text \<open>Truth value testing (\<open>if x:\<close>).\<close>

fun truthy :: "pyval \<Rightarrow> bool" where
  "truthy PNone = False"
| "truthy (PBool b) = b"
| "truthy (PInt i) = (i \<noteq> 0)"
| "truthy (PStr s) = (s \<noteq> [])"
| "truthy (PList xs) = (xs \<noteq> [])"
| "truthy (PDict kvs) = (kvs \<noteq> [])"

text \<open>\<open>d.get(k, default)\<close>: only a dictionary has the method.\<close>

fun dict_get :: "pyval \<Rightarrow> string \<Rightarrow> pyval \<Rightarrow> py_exn + pyval" where
  "dict_get (PDict kvs) k d = Inr (case map_of kvs k of Some v \<Rightarrow> v | None \<Rightarrow> d)"
| "dict_get _ k d = Inl AttributeError"

text \<open>\<open>d[k]\<close> with a string key: \<open>KeyError\<close> on a missing key, \<open>TypeError\<close> on a value
  that is not a dictionary.\<close>

fun dict_getitem :: "pyval \<Rightarrow> string \<Rightarrow> py_exn + pyval" where
  "dict_getitem (PDict kvs) k = (case map_of kvs k of Some v \<Rightarrow> Inr v | None \<Rightarrow> Inl KeyError)"
| "dict_getitem _ k = Inl TypeError"

text \<open>\<open>k in d\<close> for a string \<open>k\<close> and a dictionary \<open>d\<close>.\<close>

definition dict_has :: "(string \<times> pyval) list \<Rightarrow> string \<Rightarrow> bool" where
  "dict_has kvs k = (map_of kvs k \<noteq> None)"

text \<open>\<open>d[k] = v\<close>: an existing key keeps its place, a new key goes last.\<close>

fun dict_set :: "('k \<times> 'v) list \<Rightarrow> 'k \<Rightarrow> 'v \<Rightarrow> ('k \<times> 'v) list" where
  "dict_set [] k v = [(k, v)]"
| "dict_set ((k', v') # kvs) k v =
     (if k' = k then (k, v) # kvs else (k', v') # dict_set kvs k v)"

text \<open>\<open>del d[k]\<close> for a key that is present.\<close>

definition dict_del :: "('k \<times> 'v) list \<Rightarrow> 'k \<Rightarrow> ('k \<times> 'v) list" where
  "dict_del kvs k = filter (\<lambda>kv. fst kv \<noteq> k) kvs"

text \<open>What a \<open>for\<close> loop iterates over: the elements of a list, the keys of a dictionary,
  the characters of a string; anything else is not iterable.\<close>

fun py_iter :: "pyval \<Rightarrow> py_exn + pyval list" where
  "py_iter (PList xs) = Inr xs"
| "py_iter (PDict kvs) = Inr (map (\<lambda>kv. PStr (fst kv)) kvs)"
| "py_iter (PStr s) = Inr (map (\<lambda>c. PStr [c]) s)"
| "py_iter _ = Inl TypeError"

text \<open>
  A statement is a function from the world to a result and the new world; the result is
  the returned value (\<open>Inr\<close>) or the exception raised (\<open>Inl\<close>).
\<close>

type_synonym ('a, 'w) prog = "'w \<Rightarrow> (py_exn + 'a) \<times> 'w"

definition ret :: "'a \<Rightarrow> ('a, 'w) prog" where
  "ret x w = (Inr x, w)"

definition lift :: "py_exn + 'a \<Rightarrow> ('a, 'w) prog" where
  "lift r w = (r, w)"

definition py_bind :: "('a, 'w) prog \<Rightarrow> ('a \<Rightarrow> ('b, 'w) prog) \<Rightarrow> ('b, 'w) prog" where
  "py_bind m f w = (case m w of (Inl e, w') \<Rightarrow> (Inl e, w') | (Inr x, w') \<Rightarrow> f x w')"

text \<open>\<open>try: body except E: handler\<close>, with \<open>E\<close> given by the exceptions it catches.\<close>

definition try_except ::
  "(py_exn \<Rightarrow> bool) \<Rightarrow> ('a, 'w) prog \<Rightarrow> ('a, 'w) prog \<Rightarrow> ('a, 'w) prog" where
  "try_except catches body handler w =
     (case body w of
        (Inl e, w') \<Rightarrow> if catches e then handler w' else (Inl e, w')
      | (Inr x, w') \<Rightarrow> (Inr x, w'))"

text \<open>A \<open>for\<close> loop whose body returns nothing.\<close>

fun for_each :: "('a \<Rightarrow> (unit, 'w) prog) \<Rightarrow> 'a list \<Rightarrow> (unit, 'w) prog" where
  "for_each body [] = ret ()"
| "for_each body (x # xs) = py_bind (body x) (\<lambda>_. for_each body xs)"

text \<open>A \<open>for\<close> loop that updates local variables (\<open>acc\<close>).\<close>

fun for_acc :: "('a \<Rightarrow> 'acc \<Rightarrow> ('acc, 'w) prog) \<Rightarrow> 'a list \<Rightarrow> 'acc \<Rightarrow> ('acc, 'w) prog" where
  "for_acc body [] acc = ret acc"
| "for_acc body (x # xs) acc = py_bind (body x acc) (for_acc body xs)"

section \<open>The outside world: a server behind a transport\<close>

text \<open>
  The REST server and the table storage are outside the repository. They are a state
  \<open>'srv\<close> and a transport: the function that answers a request in a state, by a response
  or by the exception the client library raises, and gives the next state. The world of
  a script is the state of the other side and the list of the requests issued so far.
\<close>

record ('req, 'srv) world =
  srv :: 'srv
  calls :: "'req list"

type_synonym ('req, 'resp, 'srv) transport = "'req \<Rightarrow> 'srv \<Rightarrow> (py_exn + 'resp) \<times> 'srv"

definition call ::
  "('req, 'resp, 'srv) transport \<Rightarrow> 'req \<Rightarrow> ('resp, ('req, 'srv) world) prog" where
  "call send req w =
     (case send req (srv w) of (r, s') \<Rightarrow> (r, \<lparr>srv = s', calls = calls w @ [req]\<rparr>))"

text \<open>
  An HTTP request of the \<open>requests\<close> session: the method, the URL and the JSON body. A
  \<open>DELETE\<close> carries the URL up to the last slash and the identifier that the f-string
  formats after it.
\<close>

datatype http_request =
    GET string
  | POST string pyval
  | DELETE string pyval

text \<open>A response: its status code, and what \<open>response.json()\<close> returns or raises.\<close>

record response =
  status_code :: int
  json_result :: "py_exn + pyval"

definition raise_for_status :: "response \<Rightarrow> py_exn + unit" where
  "raise_for_status r =
     (if 400 \<le> status_code r \<and> status_code r < 600 then Inl HTTPError else Inr ())"

type_synonym 'srv http = "(http_request, response, 'srv) transport"
type_synonym ('a, 'srv) api = "('a, (http_request, 'srv) world) prog"

definition api_base_url :: string where
  "api_base_url = ''http://localhost:3001/api''"

text \<open>\<open>s.replace(old, new)\<close> for a non-empty \<open>old\<close>.\<close>

fun str_replace :: "string \<Rightarrow> string \<Rightarrow> string \<Rightarrow> string" where
  "str_replace old new [] = []"
| "str_replace old new (c # cs) =
     (if old \<noteq> [] \<and> take (length old) (c # cs) = old
      then new @ str_replace old new (drop (length old) (c # cs))
      else c # str_replace old new cs)"

section \<open>populate-dev-data.py: the entity API client of DataPopulator\<close>

definition populator_check_server :: "'srv http \<Rightarrow> (bool, 'srv) api" where
  "populator_check_server send =
     try_except is_RequestException
       (py_bind (call send (GET (str_replace ''/api'' '''' api_base_url @ ''/''))) (\<lambda>response.
          ret (status_code response = 200)))
       (try_except is_RequestException
          (py_bind (call send (GET (api_base_url @ ''/venues''))) (\<lambda>response.
             ret (status_code response \<in> set [200, 401])))
          (ret False))"

text \<open>The session token only becomes a header of the later requests; requests are
  modelled without their headers.\<close>

definition authenticate :: "'srv http \<Rightarrow> (bool, 'srv) api" where
  "authenticate send =
     try_except is_RequestException
       (py_bind (call send (POST (api_base_url @ ''/auth/signup'')
            (PDict [(''email'', PStr ''test@example.com''), (''name'', PStr ''Test User'')])))
          (\<lambda>signup_response.
        py_bind (call send (POST (api_base_url @ ''/auth/login'')
            (PDict [(''email'', PStr ''test@example.com''), (''password'', PStr ''password123'')])))
          (\<lambda>login_response.
        if status_code login_response = 200 then
          py_bind (lift (json_result login_response)) (\<lambda>data.
          py_bind (lift (dict_get data ''data'' (PDict []))) (\<lambda>d.
          py_bind (lift (dict_get d ''sessionToken'' PNone)) (\<lambda>session_token.
          ret (truthy session_token))))
        else ret False)))
       (ret False)"

text \<open>The three list methods differ in the collection only.\<close>

definition get_all :: "string \<Rightarrow> 'srv http \<Rightarrow> (pyval, 'srv) api" where
  "get_all collection send =
     try_except is_RequestException
       (py_bind (call send (GET (api_base_url @ ''/'' @ collection))) (\<lambda>response.
        py_bind (lift (raise_for_status response)) (\<lambda>_.
        py_bind (lift (json_result response)) (\<lambda>data.
        lift (dict_get data ''data'' (PList []))))))
       (ret (PList []))"

definition get_all_venues :: "'srv http \<Rightarrow> (pyval, 'srv) api" where
  "get_all_venues = get_all ''venues''"

definition get_all_events :: "'srv http \<Rightarrow> (pyval, 'srv) api" where
  "get_all_events = get_all ''events''"

definition get_all_rooms :: "'srv http \<Rightarrow> (pyval, 'srv) api" where
  "get_all_rooms = get_all ''rooms''"

text \<open>The loop of \<open>find_venue_by_name\<close> over the venues fetched.\<close>

fun find_venue_loop :: "pyval list \<Rightarrow> string \<Rightarrow> py_exn + pyval" where
  "find_venue_loop [] venue_name = Inr PNone"
| "find_venue_loop (venue # venues) venue_name =
     (case dict_get venue ''venueName'' PNone of
        Inl e \<Rightarrow> Inl e
      | Inr n \<Rightarrow> if n = PStr venue_name then Inr venue else find_venue_loop venues venue_name)"

definition find_venue_by_name :: "'srv http \<Rightarrow> string \<Rightarrow> (pyval, 'srv) api" where
  "find_venue_by_name send venue_name =
     py_bind (get_all_venues send) (\<lambda>venues.
     py_bind (lift (py_iter venues)) (\<lambda>vs.
     lift (find_venue_loop vs venue_name)))"

definition delete_entity :: "'srv http \<Rightarrow> string \<Rightarrow> pyval \<Rightarrow> (bool, 'srv) api" where
  "delete_entity send entity_type entity_id =
     try_except is_RequestException
       (py_bind (call send (DELETE (api_base_url @ ''/'' @ entity_type @ ''s/'') entity_id))
          (\<lambda>response.
        py_bind (lift (raise_for_status response)) (\<lambda>_.
        ret True)))
       (ret False)"

text \<open>
  The create methods return the identifier, or \<open>PNone\<close> for Python's \<open>None\<close>. The messages
  they print are not modelled, but the expressions the messages evaluate are: \<open>create_venue\<close>
  formats \<open>venue_data['name']\<close> in each of its three messages, the one of the handler
  included, and the subscript raises \<open>KeyError\<close> for a dictionary without the key;
  \<open>create_room\<close> and \<open>create_event\<close> read the name with \<open>.get("name", ...)\<close>, which only a value
  that is no dictionary fails.
\<close>

definition create_venue :: "'srv http \<Rightarrow> pyval \<Rightarrow> (pyval, 'srv) api" where
  "create_venue send venue_data =
     try_except is_RequestException
       (py_bind (call send (POST (api_base_url @ ''/venues'') venue_data)) (\<lambda>response.
        py_bind (lift (raise_for_status response)) (\<lambda>_.
        py_bind (lift (json_result response)) (\<lambda>result.
        py_bind (lift (dict_get result ''data'' (PDict []))) (\<lambda>d.
        py_bind (lift (dict_get d ''venueId'' PNone)) (\<lambda>venue_id.
        if truthy venue_id then
          py_bind (lift (dict_getitem venue_data ''name'')) (\<lambda>_. ret venue_id)
        else
          py_bind (lift (dict_getitem venue_data ''name'')) (\<lambda>_. ret PNone)))))))
       (py_bind (lift (dict_getitem venue_data ''name'')) (\<lambda>_. ret PNone))"

definition create_room :: "'srv http \<Rightarrow> pyval \<Rightarrow> (pyval, 'srv) api" where
  "create_room send room_data =
     try_except is_RequestException
       (py_bind (call send (POST (api_base_url @ ''/rooms'') room_data)) (\<lambda>response.
        py_bind (lift (raise_for_status response)) (\<lambda>_.
        py_bind (lift (json_result response)) (\<lambda>result.
        py_bind (lift (dict_get result ''data'' (PDict []))) (\<lambda>d.
        py_bind (lift (dict_get d ''roomId'' PNone)) (\<lambda>room_id.
        py_bind (lift (dict_get room_data ''name'' (PStr ''Unknown Room''))) (\<lambda>room_name.
        ret (if truthy room_id then room_id else PNone))))))))
       (py_bind (lift (dict_get room_data ''name'' (PStr ''Unknown Room''))) (\<lambda>room_name.
        ret PNone))"

definition create_event :: "'srv http \<Rightarrow> pyval \<Rightarrow> (pyval, 'srv) api" where
  "create_event send event_data =
     try_except is_RequestException
       (py_bind (call send (POST (api_base_url @ ''/events'') event_data)) (\<lambda>response.
        py_bind (lift (raise_for_status response)) (\<lambda>_.
        py_bind (lift (json_result response)) (\<lambda>result.
        py_bind (lift (dict_get result ''data'' (PDict []))) (\<lambda>d.
        py_bind (lift (dict_get d ''eventId'' PNone)) (\<lambda>event_id.
        py_bind (lift (dict_get event_data ''name'' (PStr ''Unknown Event''))) (\<lambda>event_name.
        ret (if truthy event_id then event_id else PNone))))))))
       (py_bind (lift (dict_get event_data ''name'' (PStr ''Unknown Event''))) (\<lambda>event_name.
        ret PNone))"

text \<open>The cleanup loops: the events, then the rooms, whose \<open>venueId\<close> is the venue's.\<close>

definition delete_referencing ::
  "'srv http \<Rightarrow> string \<Rightarrow> string \<Rightarrow> pyval \<Rightarrow> pyval \<Rightarrow> (unit, 'srv) api" where
  "delete_referencing send entity_type id_key venue_id entity =
     py_bind (lift (dict_get entity ''venueId'' PNone)) (\<lambda>v.
     if v = venue_id then
       py_bind (lift (dict_get entity id_key PNone)) (\<lambda>entity_id.
       if truthy entity_id then
         py_bind (delete_entity send entity_type entity_id) (\<lambda>_. ret ())
       else ret ())
     else ret ())"

definition cleanup_venue_data :: "'srv http \<Rightarrow> pyval \<Rightarrow> string \<Rightarrow> (unit, 'srv) api" where
  "cleanup_venue_data send venue_id venue_name =
     py_bind (get_all_events send) (\<lambda>events.
     py_bind (lift (py_iter events)) (\<lambda>es.
     py_bind (for_each (delete_referencing send ''event'' ''eventId'' venue_id) es) (\<lambda>_.
     py_bind (get_all_rooms send) (\<lambda>rooms.
     py_bind (lift (py_iter rooms)) (\<lambda>rs.
     py_bind (for_each (delete_referencing send ''room'' ''roomId'' venue_id) rs) (\<lambda>_.
     py_bind (delete_entity send ''venue'' venue_id) (\<lambda>_.
     ret ())))))))"

text \<open>\<open>d[k]\<close> for a value that is a string, as the values of the catalog are that the
  script concatenates or passes to \<open>str\<close>.\<close>

definition str_field :: "pyval \<Rightarrow> string \<Rightarrow> py_exn + string" where
  "str_field d k =
     (case dict_getitem d k of
        Inl e \<Rightarrow> Inl e
      | Inr (PStr s) \<Rightarrow> Inr s
      | Inr _ \<Rightarrow> Inl TypeError)"

definition assign_room_to_event :: "'srv http \<Rightarrow> pyval \<Rightarrow> pyval \<Rightarrow> pyval \<Rightarrow> (bool, 'srv) api" where
  "assign_room_to_event send event_id room_id event_data =
     try_except is_RequestException
       (py_bind (lift (str_field event_data ''eventDate'')) (\<lambda>eventDate.
        py_bind (lift (str_field event_data ''startTime'')) (\<lambda>startTime.
        py_bind (lift (str_field event_data ''endDate'')) (\<lambda>endDate.
        py_bind (lift (str_field event_data ''endTime'')) (\<lambda>endTime.
        py_bind (call send (POST (api_base_url @ ''/event-rooms'')
            (PDict [(''eventId'', event_id),
                    (''roomId'', room_id),
                    (''availableFrom'', PStr (eventDate @ ''T'' @ startTime @ '':00'')),
                    (''availableTo'', PStr (endDate @ ''T'' @ endTime @ '':00''))])))
          (\<lambda>response.
        py_bind (lift (raise_for_status response)) (\<lambda>_.
        ret True)))))))
       (ret False)"

section \<open>Calendar dates\<close>

text \<open>
  \<open>datetime.date\<close> is a year, a month and a day of the proleptic Gregorian calendar, with
  years from 1 to 9999. Its ordinal counts the days from 1 January of year 1 (ordinal 1),
  and \<open>weekday()\<close> is \<open>(toordinal() + 6) % 7\<close>: Monday is 0 and Tuesday is 1.
\<close>

record date =
  year :: int
  month :: int
  day :: int

definition isleap :: "int \<Rightarrow> bool" where
  "isleap y = (y mod 4 = 0 \<and> (y mod 100 \<noteq> 0 \<or> y mod 400 = 0))"

definition days_in_month :: "int \<Rightarrow> int \<Rightarrow> int" where
  "days_in_month y m =
     (if m = 2 then (if isleap y then 29 else 28)
      else if m \<in> set [4, 6, 9, 11] then 30 else 31)"

definition valid_date :: "date \<Rightarrow> bool" where
  "valid_date d =
     (1 \<le> year d \<and> year d \<le> 9999 \<and> 1 \<le> month d \<and> month d \<le> 12 \<and>
      1 \<le> day d \<and> day d \<le> days_in_month (year d) (month d))"

definition days_before_year :: "int \<Rightarrow> int" where
  "days_before_year y = (y - 1) * 365 + (y - 1) div 4 - (y - 1) div 100 + (y - 1) div 400"

definition days_before_month :: "int \<Rightarrow> int \<Rightarrow> int" where
  "days_before_month y m = sum_list (map (days_in_month y) [1..m - 1])"

definition toordinal :: "date \<Rightarrow> int" where
  "toordinal d = days_before_year (year d) + days_before_month (year d) (month d) + day d"

definition weekday :: "date \<Rightarrow> int" where
  "weekday d = (toordinal d + 6) mod 7"

definition next_day :: "date \<Rightarrow> date" where
  "next_day d =
     (if day d < days_in_month (year d) (month d) then d\<lparr>day := day d + 1\<rparr>
      else if month d < 12 then \<lparr>year = year d, month = month d + 1, day = 1\<rparr>
      else \<lparr>year = year d + 1, month = 1, day = 1\<rparr>)"

fun days_later :: "date \<Rightarrow> nat \<Rightarrow> date" where
  "days_later d 0 = d"
| "days_later d (Suc n) = days_later (next_day d) n"

text \<open>\<open>d + timedelta(days=n)\<close> for \<open>n \<ge> 0\<close>: the date \<open>n\<close> days later, or \<open>OverflowError\<close>
  beyond year 9999.\<close>

definition add_days :: "date \<Rightarrow> nat \<Rightarrow> py_exn + date" where
  "add_days d n =
     (let r = days_later d n in if 9999 < year r then Inl OverflowError else Inr r)"

text \<open>
  \<open>dateutil.relativedelta\<close>, with the arguments the script uses: the relative \<open>months\<close>
  (from -12 to 12), the absolute \<open>day\<close> and the relative \<open>days\<close> (\<open>weeks\<close> are seven
  days each). Adding one to a date moves the month, carries into the year, clips the day
  to the length of the month, replaces the fields (\<open>ValueError\<close> for a year out of range)
  and then adds the days.
\<close>

record relativedelta =
  rd_months :: int
  rd_day :: "int option"
  rd_days :: nat

definition add_relativedelta :: "date \<Rightarrow> relativedelta \<Rightarrow> py_exn + date" where
  "add_relativedelta dt rd =
     (let m0 = month dt + rd_months rd;
          y = (if 12 < m0 then year dt + 1 else if m0 < 1 then year dt - 1 else year dt);
          m = (if 12 < m0 then m0 - 12 else if m0 < 1 then m0 + 12 else m0);
          d = min (days_in_month y m) (case rd_day rd of Some a \<Rightarrow> a | None \<Rightarrow> day dt)
      in if y < 1 \<or> 9999 < y then Inl ValueError
         else add_days \<lparr>year = y, month = m, day = d\<rparr> (rd_days rd))"

text \<open>\<open>strftime("%Y-%m-%d")\<close>, for a year of four digits.\<close>

definition digit :: "int \<Rightarrow> char" where
  "digit n = ''0123456789'' ! nat n"

definition strftime_ymd :: "date \<Rightarrow> string" where
  "strftime_ymd d =
     [digit (year d div 1000), digit (year d div 100 mod 10), digit (year d div 10 mod 10),
      digit (year d mod 10)] @ ''-'' @
     [digit (month d div 10), digit (month d mod 10)] @ ''-'' @
     [digit (day d div 10), digit (day d mod 10)]"

definition sum_bind :: "'e + 'a \<Rightarrow> ('a \<Rightarrow> 'e + 'b) \<Rightarrow> 'e + 'b" where
  "sum_bind r f = (case r of Inl e \<Rightarrow> Inl e | Inr x \<Rightarrow> f x)"

text \<open>The dates \<open>populate_data\<close> computes from today's date, in the order it computes
  them.\<close>

record dynamic_dates =
  past_date_1 :: date
  past_date_2 :: date
  future_date_1 :: date
  future_date_2 :: date
  next_month :: date
  first_tuesday :: date
  future_next_month_2nd_tuesday :: date
  future_next_month_4th_tuesday :: date

definition calculate_dynamic_dates :: "date \<Rightarrow> py_exn + dynamic_dates" where
  "calculate_dynamic_dates today =
     sum_bind (add_relativedelta today \<lparr>rd_months = - 2, rd_day = None, rd_days = 0\<rparr>) (\<lambda>p1.
     sum_bind (add_relativedelta today \<lparr>rd_months = - 4, rd_day = None, rd_days = 0\<rparr>) (\<lambda>p2.
     sum_bind (add_relativedelta today \<lparr>rd_months = 3, rd_day = None, rd_days = 0\<rparr>) (\<lambda>f1.
     sum_bind (add_relativedelta today \<lparr>rd_months = 4, rd_day = None, rd_days = 0\<rparr>) (\<lambda>f2.
     sum_bind (add_relativedelta today \<lparr>rd_months = 1, rd_day = Some 1, rd_days = 0\<rparr>) (\<lambda>nm.
     sum_bind (add_relativedelta nm
         \<lparr>rd_months = 0, rd_day = None, rd_days = nat ((1 - weekday nm) mod 7)\<rparr>) (\<lambda>ft.
     sum_bind (add_relativedelta ft \<lparr>rd_months = 0, rd_day = None, rd_days = 7\<rparr>) (\<lambda>t2.
     sum_bind (add_relativedelta ft \<lparr>rd_months = 0, rd_day = None, rd_days = 21\<rparr>) (\<lambda>t4.
     Inr \<lparr>past_date_1 = p1, past_date_2 = p2, future_date_1 = f1, future_date_2 = f2,
          next_month = nm, first_tuesday = ft,
          future_next_month_2nd_tuesday = t2, future_next_month_4th_tuesday = t4\<rparr>))))))))"

section \<open>Vocabulary of the properties\<close>

text \<open>A record of the API is a dictionary; a venue record carries a name when its
  \<open>venueName\<close> equals it.\<close>

fun is_dict :: "pyval \<Rightarrow> bool" where
  "is_dict (PDict _) = True"
| "is_dict _ = False"

definition venue_named :: "string \<Rightarrow> pyval \<Rightarrow> bool" where
  "venue_named venue_name venue = (dict_get venue ''venueName'' PNone = Inr (PStr venue_name))"

section \<open>populate-dev-data.py: the seed orchestrator\<close>

definition MONKEY_PUZZLE_VENUE :: string where
  "MONKEY_PUZZLE_VENUE = ''Monkey Puzzle (Farnborough)''"

definition DOUBLE_TREE_VENUE :: string where
  "DOUBLE_TREE_VENUE = ''DoubleTree by Hilton Southampton''"

text \<open>The catalog. The dates of the events come from the dates computed from today.\<close>

definition venues_data :: "pyval list" where
  "venues_data =
    [PDict
      [(''name'', PStr MONKEY_PUZZLE_VENUE),
       (''description'', PStr ''Laid-back family pub/restaurant chain serving classic dishes & international favourites.''),
       (''address'', PStr ''101 Ively Rd, Cove, Farnborough GU14 0LE''),
       (''contactPhone'', PStr ''+44 1252 546654''),
       (''contactEmail'', PStr ''''),
       (''websiteURL'', PStr ''https://www.brewersfayre.co.uk/en-gb/locations/hampshire/monkey-puzzle?cid=GLBC_location41015125''),
       (''capacity'', PInt 30),
       (''mapLink'', PStr ''https://maps.app.goo.gl/jxwgd532cFiAmDRJ7'')],
    PDict
      [(''name'', PStr DOUBLE_TREE_VENUE),
       (''description'', PStr ''Set in wooded gardens off the M27 motorway, this informal hotel is 3 miles from Southampton International Airport and 5 miles from Southampton Docks.''),
       (''address'', PStr ''Bracken Pl, Chilworth, Southampton SO16 3RB''),
       (''contactPhone'', PStr ''+44 2380 702700''),
       (''contactEmail'', PStr ''''),
       (''websiteURL'', PStr ''https://www.hilton.com/en/hotels/souhndi-doubletree-southampton/?SEO_id=GMB-EMEA-DI-SOUHNDI''),
       (''capacity'', PInt 200),
       (''mapLink'', PStr ''https://maps.app.goo.gl/fXmwzS9bBSHBD7MU6'')]]"

definition rooms_data :: "(string \<times> pyval list) list" where
  "rooms_data =
    [(MONKEY_PUZZLE_VENUE,
      [PDict
         [(''roomName'', PStr ''Main Area''),
          (''capacity'', PInt 30),
          (''description'', PStr ''Large open area with tables and chairs'')],
       PDict
         [(''roomName'', PStr ''Back Room''),
          (''capacity'', PInt 15),
          (''description'', PStr ''Smaller private area at the back'')]]),
     (DOUBLE_TREE_VENUE,
      [PDict
         [(''roomName'', PStr ''Chilworth Suite''),
          (''capacity'', PInt 30),
          (''description'', PStr ''Spacious conference suite with modern amenities'')],
       PDict
         [(''roomName'', PStr ''Garden Suite''),
          (''capacity'', PInt 30),
          (''description'', PStr ''Bright suite overlooking the gardens'')],
       PDict
         [(''roomName'', PStr ''Adams Suite''),
          (''capacity'', PInt 30),
          (''description'', PStr ''Executive suite with premium facilities'')],
       PDict
         [(''roomName'', PStr ''Austen Suite''),
          (''capacity'', PInt 30),
          (''description'', PStr ''Classic suite with traditional decor'')],
       PDict
         [(''roomName'', PStr ''Hardy Suite''),
          (''capacity'', PInt 30),
          (''description'', PStr ''Contemporary suite with modern technology'')],
       PDict
         [(''roomName'', PStr ''The Boardroom''),
          (''capacity'', PInt 20),
          (''description'', PStr ''Intimate meeting space for smaller groups'')],
       PDict
         [(''roomName'', PStr ''Frome Suite''),
          (''capacity'', PInt 12),
          (''description'', PStr ''Compact suite perfect for focused discussions'')]])]"

definition events_data :: "dynamic_dates \<Rightarrow> pyval list" where
  "events_data r =
    [PDict
      [(''name'', PStr ''Board Game Championship - Monkey Puzzle''),
       (''description'', PStr ''Monthly board game tournament featuring strategy games. Winners receive prizes!''),
       (''eventDate'', PStr (strftime_ymd (past_date_2 r))),
       (''startTime'', PStr ''14:00''),
       (''endDate'', PStr (strftime_ymd (past_date_2 r))),
       (''endTime'', PStr ''20:00''),
       (''venueName'', PStr MONKEY_PUZZLE_VENUE),
       (''maxParticipants'', PInt 25),
       (''entryFee'', PInt 5),
       (''eventType'', PStr ''SOCIAL''),
       (''isPublic'', PBool True),
       (''requiresApproval'', PBool False)],
    PDict
      [(''name'', PStr ''Board Game Night - Monkey Puzzle''),
       (''description'', PStr ''Weekly board game night at Monkey Puzzle. Bring your own games or play ours!''),
       (''eventDate'', PStr (strftime_ymd (future_date_1 r))),
       (''startTime'', PStr ''18:00''),
       (''endDate'', PStr (strftime_ymd (future_date_1 r))),
       (''endTime'', PStr ''22:00''),
       (''venueName'', PStr MONKEY_PUZZLE_VENUE),
       (''maxParticipants'', PInt 30),
       (''entryFee'', PInt 0),
       (''eventType'', PStr ''SOCIAL''),
       (''isPublic'', PBool True),
       (''requiresApproval'', PBool False)],
    PDict
      [(''name'', PStr ''Clocktower (Beginner Friendly)''),
       (''description'', PStr ''Learn to play Blood on the Clocktower! Perfect for newcomers to the game. Experienced players welcome to help teach.''),
       (''eventDate'', PStr (strftime_ymd (future_next_month_2nd_tuesday r))),
       (''startTime'', PStr ''19:00''),
       (''endDate'', PStr (strftime_ymd (future_next_month_2nd_tuesday r))),
       (''endTime'', PStr ''22:30''),
       (''venueName'', PStr MONKEY_PUZZLE_VENUE),
       (''maxParticipants'', PInt 15),
       (''entryFee'', PInt 0),
       (''eventType'', PStr ''SOCIAL''),
       (''isPublic'', PBool True),
       (''requiresApproval'', PBool False)],
    PDict
      [(''name'', PStr ''Clocktower (Intermediate+)''),
       (''description'', PStr ''Advanced Blood on the Clocktower sessions for experienced players. Complex scripts and challenging scenarios.''),
       (''eventDate'', PStr (strftime_ymd (future_next_month_4th_tuesday r))),
       (''startTime'', PStr ''19:00''),
       (''endDate'', PStr (strftime_ymd (future_next_month_4th_tuesday r))),
       (''endTime'', PStr ''22:30''),
       (''venueName'', PStr MONKEY_PUZZLE_VENUE),
       (''maxParticipants'', PInt 15),
       (''entryFee'', PInt 0),
       (''eventType'', PStr ''SOCIAL''),
       (''isPublic'', PBool True),
       (''requiresApproval'', PBool False)],
    PDict
      [(''name'', PStr ''Clockshire '25''),
       (''description'', PStr ''Quarterly corporate retreat with team building activities and presentations.''),
       (''eventDate'', PStr (strftime_ymd (past_date_1 r))),
       (''startTime'', PStr ''08:00''),
       (''endDate'', PStr (strftime_ymd (past_date_1 r))),
       (''endTime'', PStr ''18:00''),
       (''venueName'', PStr DOUBLE_TREE_VENUE),
       (''maxParticipants'', PInt 80),
       (''entryFee'', PInt 75),
       (''eventType'', PStr ''CORPORATE''),
       (''isPublic'', PBool False),
       (''requiresApproval'', PBool True)],
    PDict
      [(''name'', PStr ''Clockshire '26''),
       (''description'', PStr ''Team building event with various activities and games.''),
       (''eventDate'', PStr (strftime_ymd (future_date_2 r))),
       (''startTime'', PStr ''09:00''),
       (''endDate'', PStr (strftime_ymd (future_date_2 r))),
       (''endTime'', PStr ''17:00''),
       (''venueName'', PStr DOUBLE_TREE_VENUE),
       (''maxParticipants'', PInt 100),
       (''entryFee'', PInt 50),
       (''eventType'', PStr ''CORPORATE''),
       (''isPublic'', PBool False),
       (''requiresApproval'', PBool True)]]"

text \<open>The items of a dictionary, to copy or update it.\<close>

fun dict_items :: "pyval \<Rightarrow> (string \<times> pyval) list" where
  "dict_items (PDict kvs) = kvs"
| "dict_items _ = []"

text \<open>A list or a dictionary cannot be the key of a dictionary.\<close>

fun hashable :: "pyval \<Rightarrow> bool" where
  "hashable (PList _) = False"
| "hashable (PDict _) = False"
| "hashable _ = True"

text \<open>\<open>sys.exit(n)\<close> raises \<open>SystemExit\<close>.\<close>

definition sys_exit :: "int \<Rightarrow> ('a, 'w) prog" where
  "sys_exit n w = (Inl (SystemExit n), w)"

text \<open>\<open>created_venues\<close> maps a venue name to its identifier; \<open>created_rooms\<close> maps a room
  identifier to the room's name and its venue's name. Both keep the order of insertion.\<close>

type_synonym created_venues = "(string \<times> pyval) list"
type_synonym created_rooms = "(pyval \<times> pyval \<times> string) list"

text \<open>The body of the loop over \<open>venues_data\<close>.\<close>

definition populate_venue :: "'srv http \<Rightarrow> pyval \<Rightarrow> created_venues \<Rightarrow> (created_venues, 'srv) api" where
  "populate_venue send venue_data created_venues =
     py_bind (lift (str_field venue_data ''name'')) (\<lambda>venue_name.
     py_bind (find_venue_by_name send venue_name) (\<lambda>existing_venue.
     py_bind (if truthy existing_venue then
                py_bind (lift (dict_getitem existing_venue ''venueId'')) (\<lambda>venue_id.
                cleanup_venue_data send venue_id venue_name)
              else ret ()) (\<lambda>_.
     py_bind (create_venue send venue_data) (\<lambda>venue_id.
     ret (if truthy venue_id then dict_set created_venues venue_name venue_id
          else created_venues)))))"

text \<open>The body of the loop over the rooms of a venue.\<close>

definition populate_room ::
  "'srv http \<Rightarrow> pyval \<Rightarrow> string \<Rightarrow> pyval \<Rightarrow> created_rooms \<Rightarrow> (created_rooms, 'srv) api" where
  "populate_room send venue_id venue_name room_data created_rooms =
     py_bind (lift (dict_getitem room_data ''roomName'')) (\<lambda>room_name.
     py_bind (create_room send
        (PDict (dict_del
           (dict_set (dict_set (dict_items room_data) ''venueId'' venue_id) ''name'' room_name)
           ''roomName''))) (\<lambda>room_id.
     if truthy room_id then
       (if hashable room_id then ret (dict_set created_rooms room_id (room_name, venue_name))
        else lift (Inl TypeError))
     else ret created_rooms))"

text \<open>The body of the loop over \<open>rooms_data.items()\<close>.\<close>

definition populate_rooms_of_venue ::
  "'srv http \<Rightarrow> created_venues \<Rightarrow> string \<times> pyval list \<Rightarrow> created_rooms \<Rightarrow>
   (created_rooms, 'srv) api" where
  "populate_rooms_of_venue send created_venues entry created_rooms =
     (case map_of created_venues (fst entry) of
        None \<Rightarrow> ret created_rooms
      | Some venue_id \<Rightarrow>
          for_acc (populate_room send venue_id (fst entry)) (snd entry) created_rooms)"

text \<open>The loop over \<open>created_rooms.items()\<close> that assigns the rooms of the venue to an
  event.\<close>

definition assign_rooms ::
  "'srv http \<Rightarrow> pyval \<Rightarrow> pyval \<Rightarrow> string \<Rightarrow> created_rooms \<Rightarrow> (unit, 'srv) api" where
  "assign_rooms send event_id event_data venue_name created_rooms =
     for_each (\<lambda>item.
        if snd (snd item) = venue_name then
          py_bind (assign_room_to_event send event_id (fst item) event_data) (\<lambda>success. ret ())
        else ret ()) created_rooms"

text \<open>The body of the loop over \<open>events_data\<close>. Two of its messages format
  \<open>event_data['name']\<close>: the one for an event whose venue was not created, and the one before
  the rooms are assigned.\<close>

definition populate_event ::
  "'srv http \<Rightarrow> created_venues \<Rightarrow> created_rooms \<Rightarrow> pyval \<Rightarrow> pyval list \<Rightarrow>
   (pyval list, 'srv) api" where
  "populate_event send created_venues created_rooms event_data created_events =
     py_bind (lift (str_field event_data ''venueName'')) (\<lambda>venue_name.
     case map_of created_venues venue_name of
       None \<Rightarrow> py_bind (lift (dict_getitem event_data ''name'')) (\<lambda>_. ret created_events)
     | Some venue_id \<Rightarrow>
         py_bind (create_event send
            (PDict (dict_set (dict_items event_data) ''venueId'' venue_id))) (\<lambda>event_id.
         if truthy event_id then
           py_bind (if venue_name = MONKEY_PUZZLE_VENUE then
                      py_bind (lift (dict_getitem event_data ''name'')) (\<lambda>_.
                      assign_rooms send event_id
                        (PDict (dict_set (dict_items event_data) ''venueId'' venue_id))
                        venue_name created_rooms)
                    else ret ()) (\<lambda>_.
           ret (created_events @ [event_id]))
         else ret created_events))"

text \<open>\<open>populate_data\<close>, with today's date as its input. The result is the summary it
  prints: the venues, the rooms and the events it created.\<close>

definition populate_data ::
  "'srv http \<Rightarrow> date \<Rightarrow> (created_venues \<times> created_rooms \<times> pyval list, 'srv) api" where
  "populate_data send today =
     py_bind (populator_check_server send) (\<lambda>up.
     if \<not> up then sys_exit 1 else
     py_bind (authenticate send) (\<lambda>authenticated.
     if \<not> authenticated then sys_exit 1 else
     py_bind (lift (calculate_dynamic_dates today)) (\<lambda>r.
     py_bind (for_acc (populate_venue send) venues_data []) (\<lambda>created_venues.
     py_bind (for_acc (populate_rooms_of_venue send created_venues) rooms_data [])
       (\<lambda>created_rooms.
     py_bind (for_acc (populate_event send created_venues created_rooms) (events_data r) [])
       (\<lambda>created_events.
     ret (created_venues, created_rooms, created_events)))))))"

text \<open>\<open>try: body except E1: h1 except E2: h2\<close>: the first clause that matches handles
  the exception, and an exception of a handler is not handled.\<close>

definition try_except2 ::
  "('a, 'w) prog \<Rightarrow> (py_exn \<Rightarrow> bool) \<Rightarrow> ('a, 'w) prog \<Rightarrow> (py_exn \<Rightarrow> bool) \<Rightarrow> ('a, 'w) prog \<Rightarrow>
   ('a, 'w) prog" where
  "try_except2 body catches1 handler1 catches2 handler2 w =
     (case body w of
        (Inl e, w') \<Rightarrow>
          if catches1 e then handler1 w'
          else if catches2 e then handler2 w'
          else (Inl e, w')
      | (Inr x, w') \<Rightarrow> (Inr x, w'))"

text \<open>The exit status of the process, from how the script ends: 0 when it runs to its
  end, the argument of \<open>sys.exit\<close>, and a nonzero status (here 1) for an exception that
  nothing handles.\<close>

fun exit_status :: "py_exn + 'a \<Rightarrow> int" where
  "exit_status (Inr _) = 0"
| "exit_status (Inl (SystemExit n)) = n"
| "exit_status (Inl _) = 1"

definition populator_main :: "'srv http \<Rightarrow> date \<Rightarrow> (unit, 'srv) api" where
  "populator_main send today =
     try_except2 (py_bind (populate_data send today) (\<lambda>_. ret ()))
       is_KeyboardInterrupt (sys_exit 1)
       is_Exception (sys_exit 1)"

section \<open>delete-all.py: the cleanup orchestrator\<close>

definition cleaner_check_server :: "'srv http \<Rightarrow> (bool, 'srv) api" where
  "cleaner_check_server send =
     try_except is_RequestException
       (py_bind (call send (GET (api_base_url @ ''/venues''))) (\<lambda>response.
          ret (status_code response = 200)))
       (ret False)"

text \<open>\<open>DataCleaner.get_all_entities\<close> is the list method above with the collection
  \<open>f"{entity_type}s"\<close>, and \<open>DataCleaner.delete_entity\<close> is \<open>delete_entity\<close> above, line
  for line.\<close>

definition get_all_entities :: "'srv http \<Rightarrow> string \<Rightarrow> (pyval, 'srv) api" where
  "get_all_entities send entity_type = get_all (entity_type @ ''s'') send"

text \<open>The body of the loop of \<open>delete_all_entities\<close>, with the count of the deleted.\<close>

definition delete_one :: "'srv http \<Rightarrow> string \<Rightarrow> pyval \<Rightarrow> int \<Rightarrow> (int, 'srv) api" where
  "delete_one send entity_type entity deleted_count =
     py_bind (lift (dict_get entity (entity_type @ ''Id'') PNone)) (\<lambda>entity_id.
     if truthy entity_id then
       py_bind (delete_entity send entity_type entity_id) (\<lambda>deleted.
       ret (if deleted then deleted_count + 1 else deleted_count))
     else ret deleted_count)"

definition delete_all_entities :: "'srv http \<Rightarrow> string \<Rightarrow> (int, 'srv) api" where
  "delete_all_entities send entity_type =
     py_bind (get_all_entities send entity_type) (\<lambda>entities.
     if \<not> truthy entities then ret 0 else
     py_bind (lift (py_iter entities)) (\<lambda>es.
     for_acc (delete_one send entity_type) es 0))"

text \<open>\<open>cleanup_all_data\<close>; the result is the total it prints.\<close>

definition cleanup_all_data :: "'srv http \<Rightarrow> (int, 'srv) api" where
  "cleanup_all_data send =
     py_bind (cleaner_check_server send) (\<lambda>up.
     if \<not> up then sys_exit 1 else
     py_bind (delete_all_entities send ''event'') (\<lambda>n1.
     py_bind (delete_all_entities send ''room'') (\<lambda>n2.
     py_bind (delete_all_entities send ''venue'') (\<lambda>n3.
     ret (0 + n1 + n2 + n3)))))"

text \<open>
  A character of a string is a code point below 256 (Latin-1). \<open>str.lower()\<close> on such
  text maps the capital letters \<open>A\<close> to \<open>Z\<close> and \<open>0xC0\<close> to \<open>0xDE\<close> (without the
  multiplication sign \<open>0xD7\<close>) to the code point 32 above, and \<open>str.strip()\<close> removes the
  leading and trailing characters for which \<open>str.isspace\<close> holds: \<open>0x09\<close> to \<open>0x0D\<close>,
  \<open>0x1C\<close> to \<open>0x1F\<close>, the space, the next-line control \<open>0x85\<close> and the no-break space
  \<open>0xA0\<close>.
\<close>

definition lower_char :: "char \<Rightarrow> char" where
  "lower_char c =
     (case map_of
        (zip (''ABCDEFGHIJKLMNOPQRSTUVWXYZ'' @
              [CHR 0xC0, CHR 0xC1, CHR 0xC2, CHR 0xC3, CHR 0xC4, CHR 0xC5, CHR 0xC6,
               CHR 0xC7, CHR 0xC8, CHR 0xC9, CHR 0xCA, CHR 0xCB, CHR 0xCC, CHR 0xCD,
               CHR 0xCE, CHR 0xCF, CHR 0xD0, CHR 0xD1, CHR 0xD2, CHR 0xD3, CHR 0xD4,
               CHR 0xD5, CHR 0xD6, CHR 0xD8, CHR 0xD9, CHR 0xDA, CHR 0xDB, CHR 0xDC,
               CHR 0xDD, CHR 0xDE])
             (''abcdefghijklmnopqrstuvwxyz'' @
              [CHR 0xE0, CHR 0xE1, CHR 0xE2, CHR 0xE3, CHR 0xE4, CHR 0xE5, CHR 0xE6,
               CHR 0xE7, CHR 0xE8, CHR 0xE9, CHR 0xEA, CHR 0xEB, CHR 0xEC, CHR 0xED,
               CHR 0xEE, CHR 0xEF, CHR 0xF0, CHR 0xF1, CHR 0xF2, CHR 0xF3, CHR 0xF4,
               CHR 0xF5, CHR 0xF6, CHR 0xF8, CHR 0xF9, CHR 0xFA, CHR 0xFB, CHR 0xFC,
               CHR 0xFD, CHR 0xFE])) c of
        Some l \<Rightarrow> l
      | None \<Rightarrow> c)"

definition lower :: "string \<Rightarrow> string" where
  "lower s = map lower_char s"

definition is_space :: "char \<Rightarrow> bool" where
  "is_space c =
     (c \<in> set [CHR 0x09, CHR 0x0A, CHR 0x0B, CHR 0x0C, CHR 0x0D,
                CHR 0x1C, CHR 0x1D, CHR 0x1E, CHR 0x1F, CHR '' '', CHR 0x85, CHR 0xA0])"

definition strip :: "string \<Rightarrow> string" where
  "strip s = rev (dropWhile is_space (rev (dropWhile is_space s)))"

text \<open>
  \<open>input(prompt)\<close>: the answer of the user, who has seen what the script did so far, or the
  exception that ends the prompt (\<open>EOFError\<close>, \<open>KeyboardInterrupt\<close>).
\<close>

definition input :: "('req list \<Rightarrow> py_exn + string) \<Rightarrow> (string, ('req, 'srv) world) prog" where
  "input ask w = (ask (calls w), w)"

definition cleaner_main :: "'srv http \<Rightarrow> (http_request list \<Rightarrow> py_exn + string) \<Rightarrow> (unit, 'srv) api" where
  "cleaner_main send ask =
     try_except2
       (py_bind (input ask) (\<lambda>response.
        if lower response \<notin> set [''yes'', ''y''] then sys_exit 0 else
        py_bind (cleanup_all_data send) (\<lambda>_. ret ())))
       is_KeyboardInterrupt (sys_exit 1)
       is_Exception (sys_exit 1)"

text \<open>The requests that change the datastore, and the URL of a \<open>DELETE\<close> of an entity type
  up to the identifier.\<close>

fun is_delete :: "http_request \<Rightarrow> bool" where
  "is_delete (DELETE _ _) = True"
| "is_delete _ = False"

fun is_mutation :: "http_request \<Rightarrow> bool" where
  "is_mutation (GET _) = False"
| "is_mutation _ = True"

definition entity_url :: "string \<Rightarrow> string" where
  "entity_url entity_type = api_base_url @ ''/'' @ entity_type @ ''s/''"

text \<open>A request fails when the transport raises a request exception, or when the server
  answers with an error status (which \<open>raise_for_status\<close> turns into \<open>HTTPError\<close>).\<close>

definition request_fails :: "'srv http \<Rightarrow> 'srv \<Rightarrow> http_request \<Rightarrow> bool" where
  "request_fails send s req =
     (case fst (send req s) of
        Inl e \<Rightarrow> is_RequestException e
      | Inr r \<Rightarrow> 400 \<le> status_code r \<and> status_code r < 600)"

text \<open>The identifiers, under \<open>id_key\<close>, of the records of a listing whose \<open>venueId\<close> is
  the venue's and whose identifier is truthy: the entities that the cleanup of a venue
  deletes.\<close>

fun referencing_ids :: "string \<Rightarrow> pyval \<Rightarrow> pyval list \<Rightarrow> pyval list" where
  "referencing_ids id_key venue_id [] = []"
| "referencing_ids id_key venue_id (entity # entities) =
     (if dict_get entity ''venueId'' PNone = Inr venue_id \<and>
         (case dict_get entity id_key PNone of Inr i \<Rightarrow> truthy i | Inl _ \<Rightarrow> False)
      then (case dict_get entity id_key PNone of Inr i \<Rightarrow> [i] | Inl _ \<Rightarrow> []) else [])
     @ referencing_ids id_key venue_id entities"

section \<open>A reference datastore\<close>

text \<open>
  The properties of the seed orchestrator that speak of the datastore need a server to
  speak about. This one keeps the venues, the rooms, the events and the assignments in
  lists, answers every request at once and never fails: a \<open>GET\<close> of a collection lists
  it, a \<open>POST\<close> stores a record under a fresh identifier (a positive number) and returns
  the identifier, a \<open>DELETE\<close> removes the records with the identifier. A venue is stored
  under the keys \<open>venueId\<close> and \<open>venueName\<close>, a room under \<open>roomId\<close>, \<open>venueId\<close> and
  \<open>roomName\<close>, an event under \<open>eventId\<close>, \<open>venueId\<close> and \<open>eventName\<close>: the keys the
  scripts read. It does not check names for uniqueness or references for existence, as
  the datastore of the application does not.
\<close>

record store =
  st_venues :: "pyval list"
  st_rooms :: "pyval list"
  st_events :: "pyval list"
  st_event_rooms :: "pyval list"
  st_next_id :: nat

definition ok :: "int \<Rightarrow> pyval \<Rightarrow> py_exn + response" where
  "ok code body = Inr \<lparr>status_code = code, json_result = Inr body\<rparr>"

definition not_found :: "py_exn + response" where
  "not_found = Inr \<lparr>status_code = 404, json_result = Inr (PDict [(''error'', PStr ''Not found'')])\<rparr>"

text \<open>The value under a key of the body of a request, \<open>None\<close> when it is missing.\<close>

definition field :: "pyval \<Rightarrow> string \<Rightarrow> pyval" where
  "field body k = (case map_of (dict_items body) k of Some v \<Rightarrow> v | None \<Rightarrow> PNone)"

definition has_id :: "string \<Rightarrow> pyval \<Rightarrow> pyval \<Rightarrow> bool" where
  "has_id id_key entity_id entity = (field entity id_key = entity_id)"

definition mem_get :: "string \<Rightarrow> store \<Rightarrow> (py_exn + response) \<times> store" where
  "mem_get url s =
     (if url = str_replace ''/api'' '''' api_base_url @ ''/'' then (ok 200 PNone, s)
      else if url = api_base_url @ ''/venues'' then
        (ok 200 (PDict [(''data'', PList (st_venues s))]), s)
      else if url = api_base_url @ ''/rooms'' then
        (ok 200 (PDict [(''data'', PList (st_rooms s))]), s)
      else if url = api_base_url @ ''/events'' then
        (ok 200 (PDict [(''data'', PList (st_events s))]), s)
      else (not_found, s))"

definition mem_post :: "string \<Rightarrow> pyval \<Rightarrow> store \<Rightarrow> (py_exn + response) \<times> store" where
  "mem_post url body s =
     (let i = PInt (int (st_next_id s)) in
      if url = api_base_url @ ''/auth/signup'' then (ok 201 (PDict [(''data'', PDict [])]), s)
      else if url = api_base_url @ ''/auth/login'' then
        (ok 200 (PDict [(''data'', PDict [(''sessionToken'', PStr ''token'')])]), s)
      else if url = api_base_url @ ''/venues'' then
        (ok 201 (PDict [(''data'', PDict [(''venueId'', i)])]),
         s\<lparr>st_venues := st_venues s @
              [PDict [(''venueId'', i), (''venueName'', field body ''name'')]],
           st_next_id := Suc (st_next_id s)\<rparr>)
      else if url = api_base_url @ ''/rooms'' then
        (ok 201 (PDict [(''data'', PDict [(''roomId'', i)])]),
         s\<lparr>st_rooms := st_rooms s @
              [PDict [(''roomId'', i), (''venueId'', field body ''venueId''),
                      (''roomName'', field body ''name'')]],
           st_next_id := Suc (st_next_id s)\<rparr>)
      else if url = api_base_url @ ''/events'' then
        (ok 201 (PDict [(''data'', PDict [(''eventId'', i)])]),
         s\<lparr>st_events := st_events s @
              [PDict [(''eventId'', i), (''venueId'', field body ''venueId''),
                      (''eventName'', field body ''name'')]],
           st_next_id := Suc (st_next_id s)\<rparr>)
      else if url = api_base_url @ ''/event-rooms'' then
        (ok 201 (PDict [(''data'', body)]), s\<lparr>st_event_rooms := st_event_rooms s @ [body]\<rparr>)
      else (not_found, s))"

definition mem_delete :: "string \<Rightarrow> pyval \<Rightarrow> store \<Rightarrow> (py_exn + response) \<times> store" where
  "mem_delete url entity_id s =
     (if url = entity_url ''venue'' then
        (if list_ex (has_id ''venueId'' entity_id) (st_venues s)
         then (ok 200 (PDict []),
               s\<lparr>st_venues := filter (\<lambda>v. \<not> has_id ''venueId'' entity_id v) (st_venues s)\<rparr>)
         else (not_found, s))
      else if url = entity_url ''room'' then
        (if list_ex (has_id ''roomId'' entity_id) (st_rooms s)
         then (ok 200 (PDict []),
               s\<lparr>st_rooms := filter (\<lambda>v. \<not> has_id ''roomId'' entity_id v) (st_rooms s)\<rparr>)
         else (not_found, s))
      else if url = entity_url ''event'' then
        (if list_ex (has_id ''eventId'' entity_id) (st_events s)
         then (ok 200 (PDict []),
               s\<lparr>st_events := filter (\<lambda>v. \<not> has_id ''eventId'' entity_id v) (st_events s)\<rparr>)
         else (not_found, s))
      else (not_found, s))"

fun mem_server :: "store http" where
  "mem_server (GET url) s = mem_get url s"
| "mem_server (POST url body) s = mem_post url body s"
| "mem_server (DELETE url entity_id) s = mem_delete url entity_id s"

text \<open>A datastore with the first venue of the catalog, one room and one event of it, and an
  event of another venue.\<close>

definition example_store :: store where
  "example_store =
     \<lparr>st_venues = [PDict [(''venueId'', PInt 1), (''venueName'', PStr MONKEY_PUZZLE_VENUE)]],
      st_rooms = [PDict [(''roomId'', PInt 4), (''venueId'', PInt 1), (''roomName'', PStr ''Main Area'')]],
      st_events = [PDict [(''eventId'', PInt 2), (''venueId'', PInt 1), (''eventName'', PStr ''Old night'')],
                   PDict [(''eventId'', PInt 3), (''venueId'', PInt 9), (''eventName'', PStr ''Elsewhere'')]],
      st_event_rooms = [], st_next_id = 5\<rparr>"

section \<open>delete-specific-events.py\<close>

text \<open>
  The table storage is reached through boto3. A request is a scan of a table (with its
  filter expression and attribute values, and the exclusive start key, when given), a
  \<open>get_item\<close> or a \<open>delete_item\<close> by key, or \<open>list_tables\<close>; the answer is a dictionary.
\<close>

datatype dynamo_request =
    Scan string "(string \<times> (string \<times> pyval) list) option" "pyval option"
  | GetItem string pyval
  | DeleteItem string pyval
  | ListTables

type_synonym 'srv dynamo = "(dynamo_request, pyval, 'srv) transport"
type_synonym ('a, 'srv) db = "('a, (dynamo_request, 'srv) world) prog"

text \<open>\<open>sub in s\<close> for strings.\<close>

fun str_contains :: "string \<Rightarrow> string \<Rightarrow> bool" where
  "str_contains [] sub = (sub = [])"
| "str_contains (c # cs) sub = (take (length sub) (c # cs) = sub \<or> str_contains cs sub)"

text \<open>\<open>k in x\<close> for a string \<open>k\<close>: a key of a dictionary, an element of a list, a part of
  a string.\<close>

fun py_contains :: "pyval \<Rightarrow> string \<Rightarrow> py_exn + bool" where
  "py_contains (PDict kvs) k = Inr (dict_has kvs k)"
| "py_contains (PList xs) k = Inr (PStr k \<in> set xs)"
| "py_contains (PStr s) k = Inr (str_contains s k)"
| "py_contains _ k = Inl TypeError"

definition event_key :: "string \<Rightarrow> pyval" where
  "event_key event_id =
     PDict [(''PK'', PStr (''EVENT#'' @ event_id)), (''SK'', PStr (''EVENT#'' @ event_id))]"

definition delete_event :: "'srv dynamo \<Rightarrow> string \<Rightarrow> (bool, 'srv) db" where
  "delete_event send event_id =
     try_except2
       (py_bind (call send (GetItem ''events'' (event_key event_id))) (\<lambda>response.
        py_bind (lift (py_contains response ''Item'')) (\<lambda>found.
        if \<not> found then ret False else
        py_bind (lift (dict_getitem response ''Item'')) (\<lambda>event.
        py_bind (lift (dict_get event ''eventName'' (PStr ''Unknown''))) (\<lambda>_.
        py_bind (lift (dict_get event ''createdBy'' (PStr ''Unknown''))) (\<lambda>_.
        py_bind (lift (dict_get event ''venueId'' (PStr ''None''))) (\<lambda>_.
        py_bind (call send (DeleteItem ''events'' (event_key event_id))) (\<lambda>_.
        ret True))))))))
       is_ClientError (ret False)
       is_Exception (ret False)"

text \<open>\<open>delete_events\<close>; the result is the counts it prints: the deleted and the failed.\<close>

definition delete_events :: "'srv dynamo \<Rightarrow> string list \<Rightarrow> (nat \<times> nat, 'srv) db" where
  "delete_events send event_ids =
     for_acc (\<lambda>event_id counts.
        py_bind (delete_event send event_id) (\<lambda>deleted.
        ret (if deleted then (fst counts + 1, snd counts) else (fst counts, snd counts + 1))))
       event_ids (0, 0)"

text \<open>The body of the loop of \<open>list_events\<close>, which prints three fields of an event.\<close>

definition print_event :: "pyval \<Rightarrow> (unit, 'srv) db" where
  "print_event event =
     py_bind (lift (dict_get event ''eventName'' (PStr ''Unknown''))) (\<lambda>_.
     py_bind (lift (dict_get event ''eventId'' (PStr ''Unknown ID''))) (\<lambda>_.
     py_bind (lift (dict_get event ''createdBy'' (PStr ''Unknown''))) (\<lambda>_.
     py_bind (lift (dict_get event ''venueId'' (PStr ''None''))) (\<lambda>_.
     ret ()))))"

definition list_events :: "'srv dynamo \<Rightarrow> (unit, 'srv) db" where
  "list_events send =
     try_except is_Exception
       (py_bind (call send (Scan ''events'' None None)) (\<lambda>response.
        py_bind (lift (dict_get response ''Items'' (PList []))) (\<lambda>events.
        if \<not> truthy events then ret () else
        py_bind (lift (py_iter events)) (\<lambda>es.
        for_each print_event es))))
       (ret ())"

definition event_ids_to_delete :: "string list" where
  "event_ids_to_delete =
     [''33aee519-ca06-46ea-97ae-3c786ac6df9e'', ''f7d34323-18c1-4bd6-8fef-b3eded732c1a'']"

definition deleter_main ::
  "'srv dynamo \<Rightarrow> (dynamo_request list \<Rightarrow> py_exn + string) \<Rightarrow> (unit, 'srv) db" where
  "deleter_main send ask =
     py_bind (list_events send) (\<lambda>_.
     py_bind (input ask) (\<lambda>answer.
     if strip (lower answer) \<noteq> ''yes'' then ret () else
     py_bind (delete_events send event_ids_to_delete) (\<lambda>_.
     list_events send)))"

section \<open>The web application\<close>

text \<open>
  \<open>from m import a, b\<close> succeeds when the module has the names, and raises \<open>ImportError\<close>
  otherwise. The names of \<open>typing\<close> are those the module exports (Python 3.11); of \<open>flask\<close>,
  the names the application uses.
\<close>

definition import_from :: "string list \<Rightarrow> string list \<Rightarrow> py_exn + unit" where
  "import_from module_names names =
     (if list_all (\<lambda>n. n \<in> set module_names) names then Inr () else Inl ImportError)"

definition typing_names :: "string list" where
  "typing_names =
    [''AbstractSet'', ''Annotated'', ''Any'', ''AnyStr'', ''AsyncContextManager'',
     ''AsyncGenerator'', ''AsyncIterable'', ''AsyncIterator'', ''Awaitable'', ''BinaryIO'',
     ''ByteString'', ''Callable'', ''ChainMap'', ''ClassVar'', ''Collection'',
     ''Concatenate'', ''Container'', ''ContextManager'', ''Coroutine'', ''Counter'',
     ''DefaultDict'', ''Deque'', ''Dict'', ''Final'', ''ForwardRef'', ''FrozenSet'',
     ''Generator'', ''Generic'', ''Hashable'', ''IO'', ''ItemsView'', ''Iterable'',
     ''Iterator'', ''KeysView'', ''List'', ''Literal'', ''LiteralString'', ''Mapping'',
     ''MappingView'', ''Match'', ''MutableMapping'', ''MutableSequence'', ''MutableSet'',
     ''NamedTuple'', ''Never'', ''NewType'', ''NoReturn'', ''NotRequired'', ''Optional'',
     ''OrderedDict'', ''ParamSpec'', ''ParamSpecArgs'', ''ParamSpecKwargs'', ''Pattern'',
     ''Protocol'', ''Required'', ''Reversible'', ''Self'', ''Sequence'', ''Set'',
     ''Sized'', ''SupportsAbs'', ''SupportsBytes'', ''SupportsComplex'', ''SupportsFloat'',
     ''SupportsIndex'', ''SupportsInt'', ''SupportsRound'', ''TYPE_CHECKING'', ''Text'',
     ''TextIO'', ''Tuple'', ''Type'', ''TypeAlias'', ''TypeGuard'', ''TypeVar'',
     ''TypeVarTuple'', ''TypedDict'', ''Union'', ''Unpack'', ''ValuesView'',
     ''assert_never'', ''assert_type'', ''cast'', ''clear_overloads'',
     ''dataclass_transform'', ''final'', ''get_args'', ''get_origin'', ''get_overloads'',
     ''get_type_hints'', ''is_typeddict'', ''no_type_check'', ''no_type_check_decorator'',
     ''overload'', ''reveal_type'', ''runtime_checkable'']"

definition flask_names :: "string list" where
  "flask_names = [''Blueprint'', ''Flask'', ''render_template'']"

text \<open>What a view function returns: a rendered template with its arguments, or a
  dictionary, which Flask sends as JSON.\<close>

datatype view_result =
    Rendered string "(string \<times> string) list"
  | Json pyval

definition index :: view_result where
  "index = Rendered ''index.html'' [(''title'', ''Scheduler - Game & Room Booking'')]"

definition health_check :: view_result where
  "health_check =
     Json (PDict [(''status'', PStr ''healthy''), (''message'', PStr ''Scheduler app is running'')])"

text \<open>A blueprint and an application are their URL rules: the rule, the endpoint and the
  view.\<close>

record blueprint =
  bp_name :: string
  bp_rules :: "(string \<times> string \<times> view_result) list"

record flask_app =
  url_map :: "(string \<times> string \<times> view_result option) list"

text \<open>The module \<open>app.routes\<close>: its imports, then the blueprint with the two routes.\<close>

definition routes_module :: "py_exn + blueprint" where
  "routes_module =
     sum_bind (import_from flask_names [''Blueprint'', ''render_template'']) (\<lambda>_.
     sum_bind (import_from typing_names [''str'']) (\<lambda>_.
     Inr \<lparr>bp_name = ''main'',
          bp_rules = [(''/'', ''index'', index), (''/health'', ''health_check'', health_check)]\<rparr>))"

text \<open>\<open>Flask(__name__)\<close> has the rule of the static files; \<open>register_blueprint\<close> adds the
  rules of the blueprint under its name.\<close>

definition Flask :: flask_app where
  "Flask = \<lparr>url_map = [(''/static/<path:filename>'', ''static'', None)]\<rparr>"

definition register_blueprint :: "flask_app \<Rightarrow> blueprint \<Rightarrow> flask_app" where
  "register_blueprint app bp =
     app\<lparr>url_map := url_map app @
        map (\<lambda>r. (fst r, bp_name bp @ ''.'' @ fst (snd r), Some (snd (snd r)))) (bp_rules bp)\<rparr>"

definition create_app :: "string option \<Rightarrow> py_exn + flask_app" where
  "create_app config_name =
     sum_bind routes_module (\<lambda>main. Inr (register_blueprint Flask main))"

fun is_delete_item :: "dynamo_request \<Rightarrow> bool" where
  "is_delete_item (DeleteItem _ _) = True"
| "is_delete_item _ = False"

section \<open>list-venues.py: the table readers of the reporting utility\<close>

text \<open>\<open>xs.extend(ys)\<close>: only a list has the method, and \<open>ys\<close> must be iterable.\<close>

fun list_extend :: "pyval \<Rightarrow> pyval \<Rightarrow> py_exn + pyval" where
  "list_extend (PList xs) extra =
     (case py_iter extra of Inl e \<Rightarrow> Inl e | Inr ys \<Rightarrow> Inr (PList (xs @ ys)))"
| "list_extend _ extra = Inl AttributeError"

type_synonym scan_filter = "(string \<times> (string \<times> pyval) list) option"

text \<open>
  The loop \<open>while "LastEvaluatedKey" in response\<close>, with the last response and the items
  read so far. Nothing bounds the number of pages: the loop is a partial function, and
  \<open>None\<close> is a run that never ends.
\<close>

partial_function (option) scan_more ::
  "'srv dynamo \<Rightarrow> string \<Rightarrow> scan_filter \<Rightarrow> pyval \<Rightarrow> pyval \<Rightarrow>
   (dynamo_request, 'srv) world \<Rightarrow> ((py_exn + pyval) \<times> (dynamo_request, 'srv) world) option" where
  "scan_more send table flt response items w =
     (case py_contains response ''LastEvaluatedKey'' of
        Inl e \<Rightarrow> Some (Inl e, w)
      | Inr has_more \<Rightarrow>
          if \<not> has_more then Some (Inr items, w)
          else
            (case dict_getitem response ''LastEvaluatedKey'' of
               Inl e \<Rightarrow> Some (Inl e, w)
             | Inr key \<Rightarrow>
                 (case call send (Scan table flt (Some key)) w of
                    (Inl e, w') \<Rightarrow> Some (Inl e, w')
                  | (Inr response', w') \<Rightarrow>
                      (case dict_get response' ''Items'' (PList []) of
                         Inl e \<Rightarrow> Some (Inl e, w')
                       | Inr new_items \<Rightarrow>
                           (case list_extend items new_items of
                              Inl e \<Rightarrow> Some (Inl e, w')
                            | Inr items' \<Rightarrow> scan_more send table flt response' items' w')))))"

declare scan_more.simps [code]

text \<open>The first scan and the loop: the part of a reader inside its \<open>try\<close>.\<close>

definition scan_all ::
  "'srv dynamo \<Rightarrow> string \<Rightarrow> scan_filter \<Rightarrow>
   (dynamo_request, 'srv) world \<Rightarrow> ((py_exn + pyval) \<times> (dynamo_request, 'srv) world) option" where
  "scan_all send table flt w =
     (case call send (Scan table flt None) w of
        (Inl e, w') \<Rightarrow> Some (Inl e, w')
      | (Inr response, w') \<Rightarrow>
          (case dict_get response ''Items'' (PList []) of
             Inl e \<Rightarrow> Some (Inl e, w')
           | Inr items \<Rightarrow> scan_more send table flt response items w'))"

text \<open>\<open>except ClientError\<close> and \<open>except Exception\<close> of a reader both return the empty
  result.\<close>

definition or_empty ::
  "'a \<Rightarrow> ((py_exn + 'a) \<times> 'w) option \<Rightarrow> ((py_exn + 'a) \<times> 'w) option" where
  "or_empty dflt r =
     (case r of
        None \<Rightarrow> None
      | Some (Inl e, w') \<Rightarrow>
          if is_ClientError e \<or> is_Exception e then Some (Inr dflt, w') else Some (Inl e, w')
      | Some (Inr x, w') \<Rightarrow> Some (Inr x, w'))"

definition entity_filter :: "string \<Rightarrow> scan_filter" where
  "entity_filter entity_type =
     Some (''entityType = :entityType'', [('':entityType'', PStr entity_type)])"

definition lister_get_all_venues ::
  "'srv dynamo \<Rightarrow> (dynamo_request, 'srv) world \<Rightarrow>
   ((py_exn + pyval) \<times> (dynamo_request, 'srv) world) option" where
  "lister_get_all_venues send w =
     or_empty (PList []) (scan_all send ''venues'' (entity_filter ''VENUE'') w)"

definition lister_get_all_events ::
  "'srv dynamo \<Rightarrow> (dynamo_request, 'srv) world \<Rightarrow>
   ((py_exn + pyval) \<times> (dynamo_request, 'srv) world) option" where
  "lister_get_all_events send w =
     or_empty (PList []) (scan_all send ''events'' (entity_filter ''EVENT'') w)"

text \<open>The loop of \<open>get_all_users\<close> that keys the users by their \<open>userId\<close>.\<close>

fun users_dict_loop ::
  "pyval list \<Rightarrow> (pyval \<times> pyval) list \<Rightarrow> py_exn + (pyval \<times> pyval) list" where
  "users_dict_loop [] users_dict = Inr users_dict"
| "users_dict_loop (user # users) users_dict =
     (case py_contains user ''userId'' of
        Inl e \<Rightarrow> Inl e
      | Inr has_user_id \<Rightarrow>
          if \<not> has_user_id then users_dict_loop users users_dict
          else
            (case dict_getitem user ''userId'' of
               Inl e \<Rightarrow> Inl e
             | Inr user_id \<Rightarrow>
                 if hashable user_id
                 then users_dict_loop users (dict_set users_dict user_id user)
                 else Inl TypeError))"

definition get_all_users ::
  "'srv dynamo \<Rightarrow> (dynamo_request, 'srv) world \<Rightarrow>
   ((py_exn + (pyval \<times> pyval) list) \<times> (dynamo_request, 'srv) world) option" where
  "get_all_users send w =
     or_empty []
       (case scan_all send ''users'' (Some (''SK = :sk'', [('':sk'', PStr ''PROFILE'')])) w of
          None \<Rightarrow> None
        | Some (Inl e, w') \<Rightarrow> Some (Inl e, w')
        | Some (Inr users, w') \<Rightarrow>
            (case py_iter users of
               Inl e \<Rightarrow> Some (Inl e, w')
             | Inr us \<Rightarrow> Some (users_dict_loop us [], w')))"

text \<open>
  A table that answers the scans with a given sequence of pages, one page for each scan:
  a page has its items and, when more pages follow, a \<open>LastEvaluatedKey\<close>.
\<close>

definition page :: "pyval list \<Rightarrow> pyval option \<Rightarrow> pyval" where
  "page items key =
     PDict ((''Items'', PList items) #
            (case key of None \<Rightarrow> [] | Some k \<Rightarrow> [(''LastEvaluatedKey'', k)]))"

fun paged :: "pyval list dynamo" where
  "paged req [] = (Inl ClientError, [])"
| "paged req (p # ps) = (Inr p, ps)"

text \<open>The pages of a table: those with a key, then the last one, without.\<close>

definition pages_of :: "(pyval list \<times> pyval) list \<Rightarrow> pyval list \<Rightarrow> pyval list" where
  "pages_of front last_items = map (\<lambda>p. page (fst p) (Some (snd p))) front @ [page last_items None]"

text \<open>The users of a list of items, by their \<open>userId\<close>.\<close>

definition user_entries :: "pyval list \<Rightarrow> (pyval \<times> pyval) list" where
  "user_entries items =
     concat (map (\<lambda>u. case map_of (dict_items u) ''userId'' of
                          None \<Rightarrow> [] | Some user_id \<Rightarrow> [(user_id, u)]) items)"

section \<open>Seeding the reference datastore\<close>

text \<open>
  A run of a method on the reference datastore is described by a precondition on the store
  before the call and a postcondition on the returned value and the store after it. The
  triple is one of total correctness: from every world whose store satisfies the
  precondition the method returns normally (it raises nothing), and the postcondition holds.
\<close>

definition total ::
  "('s \<Rightarrow> bool) \<Rightarrow> ('a, ('req, 's) world) prog \<Rightarrow> ('a \<Rightarrow> 's \<Rightarrow> bool) \<Rightarrow> bool" where
  "total P m Q = (\<forall>w. P (srv w) \<longrightarrow> (\<exists>x w'. m w = (Inr x, w') \<and> Q x (srv w')))"

text \<open>
  The records of the reference datastore, reduced to what the seed orchestrator reads and
  writes: a venue is its identifier and its name, a room or an event is its identifier, the
  identifier of its venue and its name; \<open>anext\<close> is the next fresh identifier.
\<close>

record astore =
  avenues :: "(nat \<times> pyval) list"
  arooms :: "(nat \<times> nat \<times> pyval) list"
  aevents :: "(nat \<times> nat \<times> pyval) list"
  anext :: nat

text \<open>The stored record of such a venue, room or event.\<close>

definition venue_rec :: "nat \<times> pyval \<Rightarrow> pyval" where
  "venue_rec v = PDict [(''venueId'', PInt (int (fst v))), (''venueName'', snd v)]"

definition room_rec :: "nat \<times> nat \<times> pyval \<Rightarrow> pyval" where
  "room_rec r =
     PDict [(''roomId'', PInt (int (fst r))), (''venueId'', PInt (int (fst (snd r)))),
            (''roomName'', snd (snd r))]"

definition event_rec :: "nat \<times> nat \<times> pyval \<Rightarrow> pyval" where
  "event_rec e =
     PDict [(''eventId'', PInt (int (fst e))), (''venueId'', PInt (int (fst (snd e)))),
            (''eventName'', snd (snd e))]"

text \<open>The store holds exactly these records, in this order, and the same next identifier.\<close>

definition represents :: "store \<Rightarrow> astore \<Rightarrow> bool" where
  "represents s a =
     (st_venues s = map venue_rec (avenues a) \<and> st_rooms s = map room_rec (arooms a) \<and>
      st_events s = map event_rec (aevents a) \<and> st_next_id s = anext a)"

text \<open>
  A consistent datastore: the identifiers of each collection are distinct and positive, and
  the identifiers and the venue references of rooms and events are below the next fresh
  identifier. A run of the seed orchestrator keeps a datastore consistent.
\<close>

definition consistent :: "astore \<Rightarrow> bool" where
  "consistent a =
     (0 < anext a \<and> distinct (map fst (avenues a)) \<and> distinct (map fst (arooms a)) \<and>
      distinct (map fst (aevents a)) \<and>
      (\<forall>v \<in> set (avenues a). 0 < fst v \<and> fst v < anext a) \<and>
      (\<forall>r \<in> set (arooms a). 0 < fst r \<and> fst r < anext a \<and> fst (snd r) < anext a) \<and>
      (\<forall>e \<in> set (aevents a). 0 < fst e \<and> fst e < anext a \<and> fst (snd e) < anext a))"

text \<open>
  What \<open>populate_venue\<close> does to the datastore: \<open>cleanup_venue_data\<close> and the delete of the
  venue remove the first venue of the given name with the events and rooms that refer to it,
  and \<open>create_venue\<close> appends the venue under a fresh identifier.
\<close>

definition remove_venue :: "nat \<Rightarrow> astore \<Rightarrow> astore" where
  "remove_venue vid a =
     a\<lparr>avenues := filter (\<lambda>v. fst v \<noteq> vid) (avenues a),
       arooms := filter (\<lambda>r. fst (snd r) \<noteq> vid) (arooms a),
       aevents := filter (\<lambda>e. fst (snd e) \<noteq> vid) (aevents a)\<rparr>"

definition add_venue :: "string \<Rightarrow> astore \<Rightarrow> astore" where
  "add_venue n a = a\<lparr>avenues := avenues a @ [(anext a, PStr n)], anext := Suc (anext a)\<rparr>"

definition replace_venue :: "string \<Rightarrow> astore \<Rightarrow> astore" where
  "replace_venue n a =
     add_venue n (case find (\<lambda>v. snd v = PStr n) (avenues a) of
                    None \<Rightarrow> a
                  | Some v \<Rightarrow> remove_venue (fst v) a)"

text \<open>What \<open>create_room\<close> and \<open>create_event\<close> do to the datastore.\<close>

definition add_room :: "nat \<Rightarrow> astore \<Rightarrow> pyval \<Rightarrow> astore" where
  "add_room vid a n = a\<lparr>arooms := arooms a @ [(anext a, vid, n)], anext := Suc (anext a)\<rparr>"

definition add_event :: "nat \<Rightarrow> astore \<Rightarrow> pyval \<Rightarrow> astore" where
  "add_event vid a n = a\<lparr>aevents := aevents a @ [(anext a, vid, n)], anext := Suc (anext a)\<rparr>"

text \<open>
  The entries of the event catalog that \<open>populate_data\<close> handles without an exception:
  dictionaries whose name, venue name, dates and times are strings.
\<close>

definition has_str :: "pyval \<Rightarrow> string \<Rightarrow> bool" where
  "has_str d k = (case map_of (dict_items d) k of Some (PStr s) \<Rightarrow> True | _ \<Rightarrow> False)"

definition venue_name_of :: "pyval \<Rightarrow> string" where
  "venue_name_of ed = (case field ed ''venueName'' of PStr s \<Rightarrow> s | _ \<Rightarrow> [])"

definition event_data_ok :: "pyval \<Rightarrow> bool" where
  "event_data_ok ed =
     (is_dict ed \<and> has_str ed ''name'' \<and> has_str ed ''venueName'' \<and>
      has_str ed ''eventDate'' \<and> has_str ed ''startTime'' \<and> has_str ed ''endDate'' \<and>
      has_str ed ''endTime'')"

text \<open>
  The venue name and the name of each event of \<open>events_data\<close>, in the order of the catalog
  (they do not depend on the computed dates), and the names of the rooms that \<open>rooms_data\<close>
  gives a venue.
\<close>

definition catalog_events :: "(string \<times> pyval) list" where
  "catalog_events =
     [(MONKEY_PUZZLE_VENUE, PStr ''Board Game Championship - Monkey Puzzle''),
      (MONKEY_PUZZLE_VENUE, PStr ''Board Game Night - Monkey Puzzle''),
      (MONKEY_PUZZLE_VENUE, PStr ''Clocktower (Beginner Friendly)''),
      (MONKEY_PUZZLE_VENUE, PStr ''Clocktower (Intermediate+)''),
      (DOUBLE_TREE_VENUE, PStr ''Clockshire '25''),
      (DOUBLE_TREE_VENUE, PStr ''Clockshire '26'')]"

definition room_names :: "string \<Rightarrow> pyval list" where
  "room_names n =
     (case map_of rooms_data n of
        None \<Rightarrow> []
      | Some rds \<Rightarrow> map (\<lambda>rd. field rd ''roomName'') rds)"

text \<open>
  One run of \<open>populate_data\<close> on the abstract datastore: both venues of the catalog are
  replaced, then the rooms of each and the events of the catalog are created under the new
  venue identifiers.
\<close>

definition aseed :: "astore \<Rightarrow> astore" where
  "aseed a =
     (let m = anext a;
          a1 = replace_venue MONKEY_PUZZLE_VENUE a;
          d = anext a1;
          a2 = replace_venue DOUBLE_TREE_VENUE a1;
          a3 = foldl (add_room m) a2 (room_names MONKEY_PUZZLE_VENUE);
          a4 = foldl (add_room d) a3 (room_names DOUBLE_TREE_VENUE)
      in foldl (\<lambda>a e. add_event (if fst e = MONKEY_PUZZLE_VENUE then m else d) a (snd e))
           a4 catalog_events)"

text \<open>
  A run splits in two: \<open>kept\<close> removes the first venue of each catalog name with its rooms
  and events, \<open>grown\<close> appends the catalog under fresh identifiers. A datastore is \<open>clean\<close>
  when no venue carries a catalog name.
\<close>

definition strip_venue :: "string \<Rightarrow> astore \<Rightarrow> astore" where
  "strip_venue n a =
     (case find (\<lambda>v. snd v = PStr n) (avenues a) of
        None \<Rightarrow> a
      | Some v \<Rightarrow> remove_venue (fst v) a)"

definition kept :: "astore \<Rightarrow> astore" where
  "kept a = strip_venue DOUBLE_TREE_VENUE (strip_venue MONKEY_PUZZLE_VENUE a)"

definition grown :: "astore \<Rightarrow> astore" where
  "grown b =
     (let m = anext b; d = Suc (anext b);
          a2 = add_venue DOUBLE_TREE_VENUE (add_venue MONKEY_PUZZLE_VENUE b);
          a3 = foldl (add_room m) a2 (room_names MONKEY_PUZZLE_VENUE);
          a4 = foldl (add_room d) a3 (room_names DOUBLE_TREE_VENUE)
      in foldl (\<lambda>a e. add_event (if fst e = MONKEY_PUZZLE_VENUE then m else d) a (snd e))
           a4 catalog_events)"

definition clean :: "astore \<Rightarrow> bool" where
  "clean b = (\<forall>v \<in> set (avenues b). snd v \<noteq> PStr MONKEY_PUZZLE_VENUE \<and>
                                       snd v \<noteq> PStr DOUBLE_TREE_VENUE)"

definition at_most_one :: "string \<Rightarrow> astore \<Rightarrow> bool" where
  "at_most_one n a = (length (filter (\<lambda>v. snd v = PStr n) (avenues a)) \<le> 1)"

text \<open>
  The datastore after one run of \<open>populate_data\<close>, the numbers of venues, rooms and events
  in a datastore, and the consistent datastores.
\<close>

definition seed :: "date \<Rightarrow> store \<Rightarrow> store" where
  "seed today s = srv (snd (populate_data mem_server today \<lparr>srv = s, calls = []\<rparr>))"

definition counts :: "store \<Rightarrow> nat \<times> nat \<times> nat" where
  "counts s = (length (st_venues s), length (st_rooms s), length (st_events s))"

definition well_formed :: "store \<Rightarrow> bool" where
  "well_formed s = (\<exists>a. represents s a \<and> consistent a)"

text \<open>
  The catalog is seeded for a venue name when exactly one venue of the datastore has the
  name, the rooms that refer to it are the rooms of the catalog for the name, once each, and
  the events that refer to it are the events of the catalog for the name, once each.
\<close>

definition seeded_venue :: "string \<Rightarrow> store \<Rightarrow> bool" where
  "seeded_venue n s =
     (case filter (venue_named n) (st_venues s) of
        [v] \<Rightarrow>
          map (\<lambda>r. field r ''roomName'')
            (filter (\<lambda>r. field r ''venueId'' = field v ''venueId'') (st_rooms s)) = room_names n \<and>
          map (\<lambda>e. field e ''eventName'')
            (filter (\<lambda>e. field e ''venueId'' = field v ''venueId'') (st_events s)) =
          map snd (filter (\<lambda>e. fst e = n) catalog_events)
      | _ \<Rightarrow> False)"

definition catalog_seeded :: "store \<Rightarrow> bool" where
  "catalog_seeded s = (seeded_venue MONKEY_PUZZLE_VENUE s \<and> seeded_venue DOUBLE_TREE_VENUE s)"

text \<open>
  A datastore in use, with the first venue of the catalog and a venue of its own, and a
  datastore in which two venues carry the name of the first venue of the catalog.
\<close>

definition used_store :: store where
  "used_store =
     \<lparr>st_venues = [PDict [(''venueId'', PInt 1), (''venueName'', PStr ''The Old Library'')],
                   PDict [(''venueId'', PInt 2), (''venueName'', PStr MONKEY_PUZZLE_VENUE)]],
      st_rooms = [PDict [(''roomId'', PInt 3), (''venueId'', PInt 2), (''roomName'', PStr ''Snug'')],
                  PDict [(''roomId'', PInt 4), (''venueId'', PInt 1), (''roomName'', PStr ''Hall'')]],
      st_events = [PDict [(''eventId'', PInt 5), (''venueId'', PInt 2), (''eventName'', PStr ''Old night'')],
                   PDict [(''eventId'', PInt 6), (''venueId'', PInt 1), (''eventName'', PStr ''Book club'')]],
      st_event_rooms = [], st_next_id = 7\<rparr>"

definition duplicate_store :: store where
  "duplicate_store =
     \<lparr>st_venues = [PDict [(''venueId'', PInt 1), (''venueName'', PStr MONKEY_PUZZLE_VENUE)],
                   PDict [(''venueId'', PInt 2), (''venueName'', PStr MONKEY_PUZZLE_VENUE)]],
      st_rooms = [PDict [(''roomId'', PInt 3), (''venueId'', PInt 2), (''roomName'', PStr ''Snug'')]],
      st_events = [], st_event_rooms = [], st_next_id = 4\<rparr>"

section \<open>What the cleanup orchestrator lists and deletes\<close>

text \<open>
  The entities that the loop of \<open>delete_all_entities\<close> goes through, from what the listing
  returned: none when the listing is falsy (the empty list, also returned when the request
  failed), its elements otherwise.
\<close>

definition listed :: "pyval \<Rightarrow> pyval list" where
  "listed entities =
     (if truthy entities then (case py_iter entities of Inr es \<Rightarrow> es | Inl _ \<Rightarrow> []) else [])"

text \<open>
  The identifiers, under \<open>id_key\<close>, of the entities of a listing that have a truthy one: the
  entities for which the loop issues a \<open>DELETE\<close>.
\<close>

fun entity_ids :: "string \<Rightarrow> pyval list \<Rightarrow> pyval list" where
  "entity_ids id_key [] = []"
| "entity_ids id_key (entity # entities) =
     (case dict_get entity id_key PNone of
        Inr i \<Rightarrow> if truthy i then [i] else []
      | Inl _ \<Rightarrow> [])
     @ entity_ids id_key entities"

text \<open>
  The reference datastore behind a server whose listing of the events fails with the
  status 500, and that answers every other request.
\<close>

definition events_listing_down :: "store http" where
  "events_listing_down req s =
     (if req = GET (api_base_url @ ''/events'')
      then (Inr \<lparr>status_code = 500,
                 json_result = Inr (PDict [(''error'', PStr ''Internal Server Error'')])\<rparr>, s)
      else mem_server req s)"

chapter \<open>Properties of the scripts\<close>

section \<open>Looking a venue up by name\<close>

lemma find_venue_loop_find:
  "list_all is_dict vs \<Longrightarrow>
   find_venue_loop vs n = Inr (case find (venue_named n) vs of Some v \<Rightarrow> v | None \<Rightarrow> PNone)"
proof (induction vs)
  case Nil
  then show ?case by simp
next
  case (Cons v vs)
  then obtain kvs where v: "v = PDict kvs" by (cases v) auto
  from Cons show ?case by (simp add: v venue_named_def)
qed

lemma get_all_fail:
  assumes "send (GET (api_base_url @ ''/'' @ c)) (srv w) = (Inl e, s')" and "is_RequestException e"
  shows "get_all c send w =
    (Inr (PList []), \<lparr>srv = s', calls = calls w @ [GET (api_base_url @ ''/'' @ c)]\<rparr>)"
  using assms by (simp add: get_all_def try_except_def py_bind_def call_def ret_def)

text \<open>
  C10. Whenever the venue listing returns a list of records, \<open>find_venue_by_name\<close> returns
  the first record of the list, in listing order, whose \<open>venueName\<close> equals the name, and
  \<open>None\<close> when no record matches. When the fetch fails with a request exception the
  listing is the empty list and the result is \<open>None\<close>: the same result as for an absent
  venue.
\<close>

theorem find_venue_by_name_first_match:
  "(get_all_venues send w = (Inr (PList vs), w') \<and> list_all is_dict vs \<longrightarrow>
      find_venue_by_name send venue_name w =
        (Inr (case find (venue_named venue_name) vs of Some v \<Rightarrow> v | None \<Rightarrow> PNone), w'))
   \<and> (fst (send (GET (api_base_url @ ''/venues'')) (srv w)) = Inl e \<and> is_RequestException e \<longrightarrow>
      fst (get_all_venues send w) = Inr (PList []) \<and>
      fst (find_venue_by_name send venue_name w) = Inr PNone)"
proof (intro conjI impI)
  assume a: "get_all_venues send w = (Inr (PList vs), w') \<and> list_all is_dict vs"
  then show "find_venue_by_name send venue_name w =
        (Inr (case find (venue_named venue_name) vs of Some v \<Rightarrow> v | None \<Rightarrow> PNone), w')"
    by (simp add: find_venue_by_name_def py_bind_def lift_def find_venue_loop_find)
next
  assume a: "fst (send (GET (api_base_url @ ''/venues'')) (srv w)) = Inl e \<and> is_RequestException e"
  then obtain s' where s: "send (GET (api_base_url @ ''/'' @ ''venues'')) (srv w) = (Inl e, s')"
    by (cases "send (GET (api_base_url @ ''/venues'')) (srv w)") auto
  from get_all_fail[of send "''venues''" w e s'] s a
  show "fst (get_all_venues send w) = Inr (PList [])" by (simp add: get_all_venues_def)
  from get_all_fail[of send "''venues''" w e s'] s a
  show "fst (find_venue_by_name send venue_name w) = Inr PNone"
    by (simp add: find_venue_by_name_def get_all_venues_def py_bind_def lift_def)
qed

text \<open>A server that lists three venues, two of them with the same name, and a transport
  that cannot connect.\<close>

theorem find_venue_by_name_first_match_witness:
  "find_venue_by_name
     (\<lambda>req s. (Inr \<lparr>status_code = 200, json_result = Inr (PDict [(''data'', PList
        [PDict [(''venueId'', PStr ''v1''), (''venueName'', PStr ''A'')],
         PDict [(''venueId'', PStr ''v2''), (''venueName'', PStr ''B'')],
         PDict [(''venueId'', PStr ''v3''), (''venueName'', PStr ''B'')]])])\<rparr>, s))
     ''B'' \<lparr>srv = (), calls = []\<rparr> =
     (Inr (PDict [(''venueId'', PStr ''v2''), (''venueName'', PStr ''B'')]),
      \<lparr>srv = (), calls = [GET (api_base_url @ ''/venues'')]\<rparr>)
   \<and> fst (find_venue_by_name (\<lambda>req s. (Inl ConnectionError, s)) ''B'' \<lparr>srv = (), calls = []\<rparr>)
       = Inr PNone"
proof -
  let ?vs = "[PDict [(''venueId'', PStr ''v1''), (''venueName'', PStr ''A'')],
         PDict [(''venueId'', PStr ''v2''), (''venueName'', PStr ''B'')],
         PDict [(''venueId'', PStr ''v3''), (''venueName'', PStr ''B'')]]"
  let ?send = "\<lambda>(req::http_request) (s::unit).
     (Inr \<lparr>status_code = 200, json_result = Inr (PDict [(''data'', PList ?vs)])\<rparr> :: py_exn + response, s)"
  let ?w = "\<lparr>srv = (), calls = []\<rparr> :: (http_request, unit) world"
  let ?w' = "\<lparr>srv = (), calls = [GET (api_base_url @ ''/venues'')]\<rparr> :: (http_request, unit) world"
  have h1: "get_all_venues ?send ?w = (Inr (PList ?vs), ?w') \<and> list_all is_dict ?vs"
    by (simp add: get_all_venues_def get_all_def try_except_def py_bind_def call_def lift_def
        raise_for_status_def)
  have r1: "find_venue_by_name ?send ''B'' ?w =
      (Inr (case find (venue_named ''B'') ?vs of Some v \<Rightarrow> v | None \<Rightarrow> PNone), ?w')"
    using find_venue_by_name_first_match[of ?send ?w ?vs ?w' "''B''"] h1 by blast
  let ?fail = "\<lambda>(req::http_request) (s::unit). (Inl ConnectionError :: py_exn + response, s)"
  have h2: "fst (?fail (GET (api_base_url @ ''/venues'')) (srv ?w)) = Inl ConnectionError
      \<and> is_RequestException ConnectionError"
    by simp
  have r2: "fst (find_venue_by_name ?fail ''B'' ?w) = Inr PNone"
    using find_venue_by_name_first_match[of ?fail ?w _ _ "''B''" ConnectionError] h2 by blast
  from r1 r2 show ?thesis by (simp add: venue_named_def)
qed

section \<open>The Tuesdays of next month\<close>

lemma days_in_month_ge_28: "28 \<le> days_in_month y m"
  by (simp add: days_in_month_def)

lemma days_later_same_month:
  "day d + int n \<le> 28 \<Longrightarrow> days_later d n = d\<lparr>day := day d + int n\<rparr>"
proof (induction n arbitrary: d)
  case 0
  then show ?case by simp
next
  case (Suc n)
  have "day d < days_in_month (year d) (month d)"
    using Suc.prems days_in_month_ge_28[of "year d" "month d"] by simp
  then have nd: "next_day d = d\<lparr>day := day d + 1\<rparr>" by (simp add: next_day_def)
  have "days_later (next_day d) n = (next_day d)\<lparr>day := day (next_day d) + int n\<rparr>"
    using Suc.prems by (intro Suc.IH) (simp add: nd)
  then show ?case by (simp add: nd add.commute add.left_commute)
qed

lemma toordinal_day_update: "toordinal (d\<lparr>day := a\<rparr>) = toordinal d - day d + a"
  by (simp add: toordinal_def)

lemma add_days_same_month:
  "year d \<le> 9999 \<Longrightarrow> day d + int n \<le> 28 \<Longrightarrow> add_days d n = Inr (d\<lparr>day := day d + int n\<rparr>)"
  by (simp add: add_days_def days_later_same_month)

lemma add_relativedelta_days:
  assumes "1 \<le> year d" "year d \<le> 9999" "1 \<le> month d" "month d \<le> 12" "day d + int n \<le> 28"
  shows "add_relativedelta d \<lparr>rd_months = 0, rd_day = None, rd_days = n\<rparr> = Inr (d\<lparr>day := day d + int n\<rparr>)"
proof -
  have "min (days_in_month (year d) (month d)) (day d) = day d"
    using assms days_in_month_ge_28[of "year d" "month d"] by simp
  then show ?thesis
    using assms by (simp add: add_relativedelta_def Let_def add_days_same_month)
qed

lemma add_relativedelta_months:
  assumes "valid_date d" "- 12 \<le> k" "k \<le> 12"
    and "\<not> (month d + k < 1 \<and> year d = 1)" and "\<not> (12 < month d + k \<and> year d = 9999)"
  shows "\<exists>r. add_relativedelta d \<lparr>rd_months = k, rd_day = a, rd_days = 0\<rparr> = Inr r"
  using assms by (auto simp add: add_relativedelta_def Let_def add_days_def valid_date_def)

lemma next_month_first:
  assumes "valid_date d" "\<not> (year d = 9999 \<and> month d = 12)"
  shows "add_relativedelta d \<lparr>rd_months = 1, rd_day = Some 1, rd_days = 0\<rparr> =
     Inr \<lparr>year = (if month d = 12 then year d + 1 else year d),
          month = (if month d = 12 then 1 else month d + 1), day = 1\<rparr>"
  using assms days_in_month_ge_28[of "year d + 1" 1] days_in_month_ge_28[of "year d" "month d + 1"]
  by (auto simp add: add_relativedelta_def Let_def add_days_def valid_date_def)

lemma tuesday_mod: "((n::int) + (1 - (n + 6) mod 7) mod 7 + 6) mod 7 = 1"
  by presburger


lemma calculate_dynamic_dates_2026_11_04: "calculate_dynamic_dates \<lparr>year = 2026, month = 11, day = 4\<rparr> =
   Inr \<lparr>past_date_1 = \<lparr>year = 2026, month = 9, day = 4\<rparr>,
        past_date_2 = \<lparr>year = 2026, month = 7, day = 4\<rparr>,
        future_date_1 = \<lparr>year = 2027, month = 2, day = 4\<rparr>,
        future_date_2 = \<lparr>year = 2027, month = 3, day = 4\<rparr>,
        next_month = \<lparr>year = 2026, month = 12, day = 1\<rparr>,
        first_tuesday = \<lparr>year = 2026, month = 12, day = 1\<rparr>,
        future_next_month_2nd_tuesday = \<lparr>year = 2026, month = 12, day = 8\<rparr>,
        future_next_month_4th_tuesday = \<lparr>year = 2026, month = 12, day = 22\<rparr>\<rparr>"
  by code_simp

text \<open>
  C3, as amended. For every valid date of today for which the date arithmetic of the
  script stays within the years 1 to 9999 (not January to April of year 1, not September
  to December of year 9999), the dates are computed, the "2nd Tuesday" and the "4th
  Tuesday" both fall on weekday Tuesday and in next month (on days 8 to 14 and 22 to 28),
  and they are exactly 14 days apart: 7 and 21 days after the first Tuesday of next month.
\<close>

theorem tuesdays_of_next_month:
  assumes "valid_date today"
    and "\<not> (year today = 1 \<and> month today \<le> 4)"
    and "\<not> (year today = 9999 \<and> 9 \<le> month today)"
  shows "\<exists>r. calculate_dynamic_dates today = Inr r \<and>
    next_month r = \<lparr>year = (if month today = 12 then year today + 1 else year today),
                    month = (if month today = 12 then 1 else month today + 1), day = 1\<rparr> \<and>
    weekday (future_next_month_2nd_tuesday r) = 1 \<and>
    weekday (future_next_month_4th_tuesday r) = 1 \<and>
    toordinal (future_next_month_4th_tuesday r) - toordinal (future_next_month_2nd_tuesday r) = 14 \<and>
    toordinal (future_next_month_2nd_tuesday r) - toordinal (first_tuesday r) = 7 \<and>
    toordinal (future_next_month_4th_tuesday r) - toordinal (first_tuesday r) = 21 \<and>
    year (future_next_month_2nd_tuesday r) = year (next_month r) \<and>
    month (future_next_month_2nd_tuesday r) = month (next_month r) \<and>
    year (future_next_month_4th_tuesday r) = year (next_month r) \<and>
    month (future_next_month_4th_tuesday r) = month (next_month r) \<and>
    8 \<le> day (future_next_month_2nd_tuesday r) \<and> day (future_next_month_2nd_tuesday r) \<le> 14 \<and>
    22 \<le> day (future_next_month_4th_tuesday r) \<and> day (future_next_month_4th_tuesday r) \<le> 28"
proof -
  obtain p1 where p1: "add_relativedelta today \<lparr>rd_months = - 2, rd_day = None, rd_days = 0\<rparr> = Inr p1"
    using add_relativedelta_months[of today "- 2" None] assms by auto
  obtain p2 where p2: "add_relativedelta today \<lparr>rd_months = - 4, rd_day = None, rd_days = 0\<rparr> = Inr p2"
    using add_relativedelta_months[of today "- 4" None] assms by auto
  obtain f1 where f1: "add_relativedelta today \<lparr>rd_months = 3, rd_day = None, rd_days = 0\<rparr> = Inr f1"
    using add_relativedelta_months[of today 3 None] assms by auto
  obtain f2 where f2: "add_relativedelta today \<lparr>rd_months = 4, rd_day = None, rd_days = 0\<rparr> = Inr f2"
    using add_relativedelta_months[of today 4 None] assms by auto
  define nm where "nm = \<lparr>year = (if month today = 12 then year today + 1 else year today),
                    month = (if month today = 12 then 1 else month today + 1), day = 1\<rparr>"
  have nm: "add_relativedelta today \<lparr>rd_months = 1, rd_day = Some 1, rd_days = 0\<rparr> = Inr nm"
    unfolding nm_def using assms by (intro next_month_first) auto
  have nm_range: "1 \<le> year nm" "year nm \<le> 9999" "1 \<le> month nm" "month nm \<le> 12" "day nm = 1"
    using assms by (auto simp add: nm_def valid_date_def)
  define k where "k = nat ((1 - weekday nm) mod 7)"
  have k: "int k = (1 - weekday nm) mod 7" "int k \<le> 6"
    by (simp_all add: k_def)
  define ft where "ft = nm\<lparr>day := 1 + int k\<rparr>"
  have ft: "add_relativedelta nm \<lparr>rd_months = 0, rd_day = None, rd_days = k\<rparr> = Inr ft"
    using add_relativedelta_days[of nm k] nm_range k by (simp add: ft_def)
  have ft_range: "1 \<le> year ft" "year ft \<le> 9999" "1 \<le> month ft" "month ft \<le> 12" "day ft = 1 + int k"
    using nm_range by (simp_all add: ft_def)
  define t2 where "t2 = nm\<lparr>day := 8 + int k\<rparr>"
  have t2: "add_relativedelta ft \<lparr>rd_months = 0, rd_day = None, rd_days = 7\<rparr> = Inr t2"
    using add_relativedelta_days[of ft 7] ft_range k by (simp add: t2_def ft_def)
  define t4 where "t4 = nm\<lparr>day := 22 + int k\<rparr>"
  have t4: "add_relativedelta ft \<lparr>rd_months = 0, rd_day = None, rd_days = 21\<rparr> = Inr t4"
    using add_relativedelta_days[of ft 21] ft_range k by (simp add: t4_def ft_def)
  define r where "r = \<lparr>past_date_1 = p1, past_date_2 = p2, future_date_1 = f1, future_date_2 = f2,
          next_month = nm, first_tuesday = ft,
          future_next_month_2nd_tuesday = t2, future_next_month_4th_tuesday = t4\<rparr>"
  have run: "calculate_dynamic_dates today = Inr r"
    by (simp add: calculate_dynamic_dates_def sum_bind_def p1 p2 f1 f2 nm ft t2 t4 r_def
        flip: k_def)
  have o_ft: "toordinal ft = toordinal nm + int k"
    by (simp add: ft_def toordinal_day_update nm_range)
  have o_t2: "toordinal t2 = toordinal nm + int k + 7"
    by (simp add: t2_def toordinal_day_update nm_range)
  have o_t4: "toordinal t4 = toordinal nm + int k + 21"
    by (simp add: t4_def toordinal_day_update nm_range)
  have wd_nm: "weekday nm = (toordinal nm + 6) mod 7" by (simp add: weekday_def)
  have w2: "weekday t2 = 1"
    unfolding weekday_def o_t2 k(1) wd_nm by presburger
  have w4: "weekday t4 = 1"
    unfolding weekday_def o_t4 k(1) wd_nm by presburger
  show ?thesis
  proof (intro exI[of _ r] conjI)
    show "calculate_dynamic_dates today = Inr r" by (rule run)
  qed (use k w2 w4 o_ft o_t2 o_t4 in \<open>simp_all add: r_def nm_def[symmetric] t2_def t4_def\<close>)
qed

theorem tuesdays_of_next_month_witness:
  "\<exists>r. calculate_dynamic_dates \<lparr>year = 2026, month = 11, day = 4\<rparr> = Inr r \<and>
    next_month r = \<lparr>year = 2026, month = 12, day = 1\<rparr> \<and>
    weekday (future_next_month_2nd_tuesday r) = 1 \<and>
    weekday (future_next_month_4th_tuesday r) = 1 \<and>
    toordinal (future_next_month_4th_tuesday r) - toordinal (future_next_month_2nd_tuesday r) = 14"
proof -
  have v: "valid_date \<lparr>year = 2026, month = 11, day = 4\<rparr>"
    by (simp add: valid_date_def days_in_month_def)
  from tuesdays_of_next_month[OF v] show ?thesis by auto
qed

text \<open>
  C3, as stated, has the two dates "14 and 28 days apart". On 4 November 2026 the first
  Tuesday of next month is 1 December: the two dates are 8 and 22 December, 14 days from
  each other and 7 and 21 days after the first Tuesday, and no pair of the computed dates
  is 28 days apart.
\<close>

theorem tuesdays_28_days_apart_counterexample:
  "\<exists>r. calculate_dynamic_dates \<lparr>year = 2026, month = 11, day = 4\<rparr> = Inr r \<and>
     toordinal (future_next_month_4th_tuesday r) - toordinal (future_next_month_2nd_tuesday r) \<noteq> 28 \<and>
     toordinal (future_next_month_2nd_tuesday r) - toordinal (first_tuesday r) \<noteq> 14 \<and>
     toordinal (future_next_month_4th_tuesday r) - toordinal (first_tuesday r) \<noteq> 28 \<and>
     toordinal (future_next_month_2nd_tuesday r) - toordinal (next_month r) \<noteq> 14 \<and>
     toordinal (future_next_month_4th_tuesday r) - toordinal (next_month r) \<noteq> 28"
proof -
  have o1: "toordinal \<lparr>year = 2026, month = 12, day = 1\<rparr> = 739951" by code_simp
  have o8: "toordinal \<lparr>year = 2026, month = 12, day = 8\<rparr> = 739958" by code_simp
  have o22: "toordinal \<lparr>year = 2026, month = 12, day = 22\<rparr> = 739972" by code_simp
  show ?thesis
    by (simp add: calculate_dynamic_dates_2026_11_04 o1 o8 o22)
qed

section \<open>The order of the deletes of the cleanup orchestrator\<close>

lemma call_calls: "calls (snd (call send req w)) = calls w @ [req]"
  by (simp add: call_def split: prod.splits)

lemma delete_entity_calls:
  "calls (snd (delete_entity send t i w)) = calls w @ [DELETE (entity_url t) i]"
  by (auto simp add: delete_entity_def entity_url_def try_except_def py_bind_def call_def ret_def
      lift_def split: prod.splits sum.splits)

lemma get_all_calls:
  "calls (snd (get_all c send w)) = calls w @ [GET (api_base_url @ ''/'' @ c)]"
  by (auto simp add: get_all_def try_except_def py_bind_def call_def ret_def
      lift_def split: prod.splits sum.splits)

lemma delete_one_calls:
  "\<exists>ids. calls (snd (delete_one send t e n w)) = calls w @ map (DELETE (entity_url t)) ids"
proof (cases "dict_get e (t @ ''Id'') PNone")
  case (Inl a)
  then have "calls (snd (delete_one send t e n w)) = calls w @ map (DELETE (entity_url t)) []"
    by (simp add: delete_one_def py_bind_def lift_def)
  then show ?thesis by blast
next
  case (Inr i)
  show ?thesis
  proof (cases "truthy i")
    case True
    have "calls (snd (delete_one send t e n w)) = calls w @ map (DELETE (entity_url t)) [i]"
      using Inr True delete_entity_calls[of send t i w]
      by (auto simp add: delete_one_def py_bind_def lift_def ret_def split: prod.splits sum.splits)
    then show ?thesis by blast
  next
    case False
    have "calls (snd (delete_one send t e n w)) = calls w @ map (DELETE (entity_url t)) []"
      using Inr False by (simp add: delete_one_def py_bind_def lift_def ret_def)
    then show ?thesis by blast
  qed
qed

lemma delete_loop_calls:
  "\<exists>ids. calls (snd (for_acc (delete_one send t) es n w)) = calls w @ map (DELETE (entity_url t)) ids"
proof (induction es arbitrary: n w)
  case Nil
  have "calls (snd (for_acc (delete_one send t) [] n w)) = calls w @ map (DELETE (entity_url t)) []"
    by (simp add: ret_def)
  then show ?case by blast
next
  case (Cons e es)
  obtain ids1 where 1: "calls (snd (delete_one send t e n w)) = calls w @ map (DELETE (entity_url t)) ids1"
    using delete_one_calls by blast
  show ?case
  proof (cases "delete_one send t e n w")
    case (Pair r w1)
    show ?thesis
    proof (cases r)
      case (Inl x)
      with Pair 1 have "calls (snd (for_acc (delete_one send t) (e # es) n w)) =
          calls w @ map (DELETE (entity_url t)) ids1"
        by (simp add: py_bind_def)
      then show ?thesis by blast
    next
      case (Inr n1)
      obtain ids2 where 2: "calls (snd (for_acc (delete_one send t) es n1 w1)) =
          calls w1 @ map (DELETE (entity_url t)) ids2"
        using Cons.IH by blast
      from Pair Inr 1 2 have "calls (snd (for_acc (delete_one send t) (e # es) n w)) =
          calls w @ map (DELETE (entity_url t)) (ids1 @ ids2)"
        by (simp add: py_bind_def)
      then show ?thesis by blast
    qed
  qed
qed

lemma delete_all_entities_deletes:
  "\<exists>ids. filter is_delete (calls (snd (delete_all_entities send t w))) =
     filter is_delete (calls w) @ map (DELETE (entity_url t)) ids"
proof -
  obtain r w1 where g: "get_all_entities send t w = (r, w1)" by (cases "get_all_entities send t w")
  have c1: "calls w1 = calls w @ [GET (api_base_url @ ''/'' @ t @ ''s'')]"
    using get_all_calls[of "t @ ''s''" send w] g by (simp add: get_all_entities_def)
  have f1: "filter is_delete (calls w1) = filter is_delete (calls w)"
    by (simp add: c1)
  have stop: "filter is_delete (calls w1) = filter is_delete (calls w) @ map (DELETE (entity_url t)) []"
    by (simp add: f1)
  show ?thesis
  proof (cases r)
    case (Inl e)
    with g have "snd (delete_all_entities send t w) = w1"
      by (simp add: delete_all_entities_def py_bind_def)
    with stop show ?thesis by metis
  next
    case (Inr entities)
    show ?thesis
    proof (cases "truthy entities")
      case False
      with g Inr have "snd (delete_all_entities send t w) = w1"
        by (simp add: delete_all_entities_def py_bind_def ret_def)
      with stop show ?thesis by metis
    next
      case True
      show ?thesis
      proof (cases "py_iter entities")
        case (Inl e)
        with g Inr True have "snd (delete_all_entities send t w) = w1"
          by (simp add: delete_all_entities_def py_bind_def lift_def)
        with stop show ?thesis by metis
      next
        case es: (Inr es)
        obtain ids where "calls (snd (for_acc (delete_one send t) es 0 w1)) =
            calls w1 @ map (DELETE (entity_url t)) ids"
          using delete_loop_calls by blast
        then have "filter is_delete (calls (snd (for_acc (delete_one send t) es 0 w1))) =
            filter is_delete (calls w) @ map (DELETE (entity_url t)) ids"
          by (simp add: f1 filter_map comp_def)
        moreover have "snd (delete_all_entities send t w) = snd (for_acc (delete_one send t) es 0 w1)"
          using g Inr True es by (simp add: delete_all_entities_def py_bind_def lift_def)
        ultimately show ?thesis by metis
      qed
    qed
  qed
qed

lemma cleaner_check_server_calls:
  "calls (snd (cleaner_check_server send w)) = calls w @ [GET (api_base_url @ ''/venues'')]"
  by (auto simp add: cleaner_check_server_def try_except_def py_bind_def call_def ret_def
      split: prod.splits sum.splits)

text \<open>
  Whatever the server answers and wherever the run stops, the \<open>DELETE\<close> requests of
  \<open>cleanup_all_data\<close> are deletes of events, followed by deletes of rooms, followed by
  deletes of venues.
\<close>

lemma cleanup_delete_order:
  "\<exists>es rs vs. filter is_delete (calls (snd (cleanup_all_data send w))) =
     filter is_delete (calls w) @
     map (DELETE (entity_url ''event'')) es @
     map (DELETE (entity_url ''room'')) rs @
     map (DELETE (entity_url ''venue'')) vs"
proof -
  obtain r0 w0 where c: "cleaner_check_server send w = (r0, w0)"
    by (cases "cleaner_check_server send w")
  have f0: "filter is_delete (calls w0) = filter is_delete (calls w)"
    using cleaner_check_server_calls[of send w] c by simp
  obtain r1 w1 where d1: "delete_all_entities send ''event'' w0 = (r1, w1)"
    by (cases "delete_all_entities send ''event'' w0")
  obtain es where f1: "filter is_delete (calls w1) =
      filter is_delete (calls w) @ map (DELETE (entity_url ''event'')) es"
    using delete_all_entities_deletes[of send "''event''" w0] d1 f0 by auto
  obtain r2 w2 where d2: "delete_all_entities send ''room'' w1 = (r2, w2)"
    by (cases "delete_all_entities send ''room'' w1")
  obtain rs where f2: "filter is_delete (calls w2) =
      filter is_delete (calls w1) @ map (DELETE (entity_url ''room'')) rs"
    using delete_all_entities_deletes[of send "''room''" w1] d2 by auto
  obtain r3 w3 where d3: "delete_all_entities send ''venue'' w2 = (r3, w3)"
    by (cases "delete_all_entities send ''venue'' w2")
  obtain vs where f3: "filter is_delete (calls w3) =
      filter is_delete (calls w2) @ map (DELETE (entity_url ''venue'')) vs"
    using delete_all_entities_deletes[of send "''venue''" w2] d3 by auto
  have "snd (cleanup_all_data send w) \<in> {w0, w1, w2, w3}"
    using c d1 d2 d3
    by (auto simp add: cleanup_all_data_def py_bind_def sys_exit_def ret_def split: sum.splits)
  then consider "snd (cleanup_all_data send w) = w0" | "snd (cleanup_all_data send w) = w1"
    | "snd (cleanup_all_data send w) = w2" | "snd (cleanup_all_data send w) = w3" by blast
  then show ?thesis
  proof cases
    case 1
    then have "filter is_delete (calls (snd (cleanup_all_data send w))) =
     filter is_delete (calls w) @ map (DELETE (entity_url ''event'')) [] @
     map (DELETE (entity_url ''room'')) [] @ map (DELETE (entity_url ''venue'')) []"
      using f0 by simp
    then show ?thesis by blast
  next
    case 2
    then have "filter is_delete (calls (snd (cleanup_all_data send w))) =
     filter is_delete (calls w) @ map (DELETE (entity_url ''event'')) es @
     map (DELETE (entity_url ''room'')) [] @ map (DELETE (entity_url ''venue'')) []"
      using f1 by simp
    then show ?thesis by blast
  next
    case 3
    then have "filter is_delete (calls (snd (cleanup_all_data send w))) =
     filter is_delete (calls w) @ map (DELETE (entity_url ''event'')) es @
     map (DELETE (entity_url ''room'')) rs @ map (DELETE (entity_url ''venue'')) []"
      using f1 f2 by simp
    then show ?thesis by blast
  next
    case 4
    then have "filter is_delete (calls (snd (cleanup_all_data send w))) =
     filter is_delete (calls w) @ map (DELETE (entity_url ''event'')) es @
     map (DELETE (entity_url ''room'')) rs @ map (DELETE (entity_url ''venue'')) vs"
      using f1 f2 f3 by simp
    then show ?thesis by blast
  qed
qed


section \<open>Failures of the transport become failure signals\<close>

lemma get_all_failure:
  "request_fails send (srv w) (GET (api_base_url @ ''/'' @ c)) \<Longrightarrow>
   fst (get_all c send w) = Inr (PList [])"
  by (auto simp add: request_fails_def get_all_def try_except_def py_bind_def call_def ret_def
      lift_def raise_for_status_def split: prod.splits sum.splits)

lemma create_room_failure:
  "request_fails send (srv w) (POST (api_base_url @ ''/rooms'') room_data) \<Longrightarrow> is_dict room_data \<Longrightarrow>
   fst (create_room send room_data w) = Inr PNone"
  by (cases room_data)
     (auto simp add: request_fails_def create_room_def try_except_def py_bind_def call_def ret_def
      lift_def raise_for_status_def split: prod.splits sum.splits)

lemma create_event_failure:
  "request_fails send (srv w) (POST (api_base_url @ ''/events'') event_data) \<Longrightarrow> is_dict event_data \<Longrightarrow>
   fst (create_event send event_data w) = Inr PNone"
  by (cases event_data)
     (auto simp add: request_fails_def create_event_def try_except_def py_bind_def call_def ret_def
      lift_def raise_for_status_def split: prod.splits sum.splits)

lemma create_venue_failure:
  "request_fails send (srv w) (POST (api_base_url @ ''/venues'') venue_data) \<Longrightarrow>
   fst (create_venue send venue_data w) =
     (case dict_getitem venue_data ''name'' of Inr _ \<Rightarrow> Inr PNone | Inl e \<Rightarrow> Inl e)"
  by (auto simp add: request_fails_def create_venue_def try_except_def py_bind_def call_def ret_def
      lift_def raise_for_status_def split: prod.splits sum.splits)

lemma delete_entity_failure:
  "request_fails send (srv w) (DELETE (api_base_url @ ''/'' @ t @ ''s/'') entity_id) \<Longrightarrow>
   fst (delete_entity send t entity_id w) = Inr False"
  by (auto simp add: request_fails_def delete_entity_def try_except_def py_bind_def call_def ret_def
      lift_def raise_for_status_def split: prod.splits sum.splits)

text \<open>
  C7. A method of the entity API client whose request fails (the transport raises a request
  exception, or the server answers with an error status) returns a failure signal: the
  list methods return the empty list, the delete method returns \<open>False\<close>, \<open>create_room\<close> and
  \<open>create_event\<close> return \<open>None\<close> for every dictionary. \<open>create_venue\<close> returns \<open>None\<close> when
  \<open>venue_data\<close> has the key \<open>name\<close>; for a dictionary without it, the message of its handler
  raises \<open>KeyError\<close>, and the exception reaches the caller.
\<close>

theorem api_client_failure_signals:
  "(request_fails send (srv w) (GET (api_base_url @ ''/venues'')) \<longrightarrow>
      fst (get_all_venues send w) = Inr (PList [])) \<and>
   (request_fails send (srv w) (GET (api_base_url @ ''/events'')) \<longrightarrow>
      fst (get_all_events send w) = Inr (PList [])) \<and>
   (request_fails send (srv w) (GET (api_base_url @ ''/rooms'')) \<longrightarrow>
      fst (get_all_rooms send w) = Inr (PList [])) \<and>
   (request_fails send (srv w) (GET (api_base_url @ ''/'' @ entity_type @ ''s'')) \<longrightarrow>
      fst (get_all_entities send entity_type w) = Inr (PList [])) \<and>
   (request_fails send (srv w) (DELETE (entity_url entity_type) entity_id) \<longrightarrow>
      fst (delete_entity send entity_type entity_id w) = Inr False) \<and>
   (request_fails send (srv w) (POST (api_base_url @ ''/rooms'') room_data) \<and> is_dict room_data \<longrightarrow>
      fst (create_room send room_data w) = Inr PNone) \<and>
   (request_fails send (srv w) (POST (api_base_url @ ''/events'') event_data) \<and> is_dict event_data \<longrightarrow>
      fst (create_event send event_data w) = Inr PNone) \<and>
   (request_fails send (srv w) (POST (api_base_url @ ''/venues'') venue_data) \<longrightarrow>
      fst (create_venue send venue_data w) =
        (case dict_getitem venue_data ''name'' of Inr _ \<Rightarrow> Inr PNone | Inl e \<Rightarrow> Inl e))"
proof (intro conjI impI)
  assume "request_fails send (srv w) (POST (api_base_url @ ''/venues'') venue_data)"
  then show "fst (create_venue send venue_data w) =
        (case dict_getitem venue_data ''name'' of Inr _ \<Rightarrow> Inr PNone | Inl e \<Rightarrow> Inl e)"
    by (rule create_venue_failure)
qed (simp_all add: get_all_venues_def get_all_events_def get_all_rooms_def get_all_entities_def
      entity_url_def get_all_failure create_room_failure create_event_failure
      delete_entity_failure)

text \<open>
  With a server that cannot be reached: the listing of the venues is empty, the delete
  returns \<open>False\<close>, \<open>create_room\<close> returns \<open>None\<close> for the empty dictionary and \<open>create_venue\<close>
  returns \<open>None\<close> for a venue with a name, but \<open>create_venue\<close> raises \<open>KeyError\<close> for the empty
  dictionary.
\<close>

theorem api_client_failure_signals_witness:
  "fst (get_all_venues (\<lambda>req s. (Inl ConnectionError, s)) \<lparr>srv = (), calls = []\<rparr>) = Inr (PList []) \<and>
   fst (delete_entity (\<lambda>req s. (Inl ConnectionError, s)) ''venue'' (PStr ''v1'')
      \<lparr>srv = (), calls = []\<rparr>) = Inr False \<and>
   fst (create_room (\<lambda>req s. (Inl ConnectionError, s)) (PDict []) \<lparr>srv = (), calls = []\<rparr>) = Inr PNone \<and>
   fst (create_event (\<lambda>req s. (Inl ConnectionError, s)) (PDict []) \<lparr>srv = (), calls = []\<rparr>) = Inr PNone \<and>
   fst (create_venue (\<lambda>req s. (Inl ConnectionError, s)) (PDict [(''name'', PStr ''A'')])
      \<lparr>srv = (), calls = []\<rparr>) = Inr PNone \<and>
   fst (create_venue (\<lambda>req s. (Inl ConnectionError, s)) (PDict []) \<lparr>srv = (), calls = []\<rparr>) =
     Inl KeyError"
proof -
  let ?send = "\<lambda>(req::http_request) (s::unit). (Inl ConnectionError :: py_exn + response, s)"
  let ?w = "\<lparr>srv = (), calls = []\<rparr> :: (http_request, unit) world"
  have h: "request_fails ?send (srv ?w) req" for req
    by (simp add: request_fails_def)
  note named = api_client_failure_signals[of ?send ?w "''venue''" "PStr ''v1''" "PDict []" "PDict []"
      "PDict [(''name'', PStr ''A'')]"]
  note unnamed = api_client_failure_signals[of ?send ?w "''venue''" "PStr ''v1''" "PDict []" "PDict []"
      "PDict []"]
  have 1: "fst (get_all_venues ?send ?w) = Inr (PList [])" using named h by blast
  have 2: "fst (delete_entity ?send ''venue'' (PStr ''v1'') ?w) = Inr False" using named h by blast
  have 3: "fst (create_room ?send (PDict []) ?w) = Inr PNone" using named h by simp
  have 4: "fst (create_event ?send (PDict []) ?w) = Inr PNone" using named h by simp
  have 5: "fst (create_venue ?send (PDict [(''name'', PStr ''A'')]) ?w) = Inr PNone"
    using named h by simp
  have 6: "fst (create_venue ?send (PDict []) ?w) = Inl KeyError"
    using unnamed h by simp
  from 1 2 3 4 5 6 show ?thesis by (intro conjI)
qed

section \<open>An unreachable server\<close>

lemma populator_check_server_calls:
  "filter is_mutation (calls (snd (populator_check_server send w))) = filter is_mutation (calls w)"
  by (auto simp add: populator_check_server_def try_except_def py_bind_def call_def ret_def
      split: prod.splits sum.splits)

lemma cleaner_check_server_no_mutation:
  "filter is_mutation (calls (snd (cleaner_check_server send w))) = filter is_mutation (calls w)"
  by (simp add: cleaner_check_server_calls)

text \<open>
  C5. When the reachability probe of the populate script returns \<open>False\<close>, the script exits
  with status 1 and has issued no \<open>POST\<close> and no \<open>DELETE\<close>. The cleanup script probes the
  server once the user has confirmed; when its probe returns \<open>False\<close>, it exits with
  status 1 and has issued no \<open>POST\<close> and no \<open>DELETE\<close>.
\<close>

theorem unreachable_server_exits_before_mutation:
  "(fst (populator_check_server send w) = Inr False \<longrightarrow>
      exit_status (fst (populator_main send today w)) = 1 \<and>
      filter is_mutation (calls (snd (populator_main send today w))) = filter is_mutation (calls w))
   \<and> (ask (calls w) = Inr answer \<and> lower answer \<in> set [''yes'', ''y''] \<and>
      fst (cleaner_check_server send w) = Inr False \<longrightarrow>
      exit_status (fst (cleaner_main send ask w)) = 1 \<and>
      filter is_mutation (calls (snd (cleaner_main send ask w))) = filter is_mutation (calls w))"
proof (intro conjI impI)
  assume a: "fst (populator_check_server send w) = Inr False"
  obtain w1 where c: "populator_check_server send w = (Inr False, w1)"
    using a by (cases "populator_check_server send w") auto
  have m: "populator_main send today w = (Inl (SystemExit 1), w1)"
    using c by (simp add: populator_main_def populate_data_def try_except2_def py_bind_def sys_exit_def)
  show "exit_status (fst (populator_main send today w)) = 1" by (simp add: m)
  show "filter is_mutation (calls (snd (populator_main send today w))) = filter is_mutation (calls w)"
    using populator_check_server_calls[of send w] by (simp add: m c)
next
  assume a: "ask (calls w) = Inr answer \<and> lower answer \<in> set [''yes'', ''y''] \<and>
      fst (cleaner_check_server send w) = Inr False"
  obtain w1 where c: "cleaner_check_server send w = (Inr False, w1)"
    using a by (cases "cleaner_check_server send w") auto
  have m: "cleaner_main send ask w = (Inl (SystemExit 1), w1)"
    using c a by (simp add: cleaner_main_def cleanup_all_data_def try_except2_def py_bind_def
        sys_exit_def input_def)
  show "exit_status (fst (cleaner_main send ask w)) = 1" by (simp add: m)
  show "filter is_mutation (calls (snd (cleaner_main send ask w))) = filter is_mutation (calls w)"
    using cleaner_check_server_no_mutation[of send w] by (simp add: m c)
qed

theorem unreachable_server_exits_before_mutation_witness:
  "exit_status (fst (populator_main (\<lambda>req s. (Inl ConnectionError, s))
       \<lparr>year = 2026, month = 11, day = 4\<rparr> \<lparr>srv = (), calls = []\<rparr>)) = 1 \<and>
   filter is_mutation (calls (snd (populator_main (\<lambda>req s. (Inl ConnectionError, s))
       \<lparr>year = 2026, month = 11, day = 4\<rparr> \<lparr>srv = (), calls = []\<rparr>))) = [] \<and>
   exit_status (fst (cleaner_main (\<lambda>req s. (Inl ConnectionError, s)) (\<lambda>cs. Inr ''Yes'')
       \<lparr>srv = (), calls = []\<rparr>)) = 1 \<and>
   filter is_mutation (calls (snd (cleaner_main (\<lambda>req s. (Inl ConnectionError, s)) (\<lambda>cs. Inr ''Yes'')
       \<lparr>srv = (), calls = []\<rparr>))) = []"
proof -
  let ?send = "\<lambda>(req::http_request) (s::unit). (Inl ConnectionError :: py_exn + response, s)"
  let ?w = "\<lparr>srv = (), calls = []\<rparr> :: (http_request, unit) world"
  let ?ask = "\<lambda>cs::http_request list. Inr ''Yes'' :: py_exn + string"
  have h1: "fst (populator_check_server ?send ?w) = Inr False"
    by (simp add: populator_check_server_def try_except_def py_bind_def call_def ret_def)
  have h2: "?ask (calls ?w) = Inr ''Yes'' \<and> lower ''Yes'' \<in> set [''yes'', ''y''] \<and>
      fst (cleaner_check_server ?send ?w) = Inr False"
    by (simp add: cleaner_check_server_def try_except_def py_bind_def call_def ret_def
        lower_def lower_char_def)
  let ?today = "\<lparr>year = 2026, month = 11, day = 4\<rparr>"
  note T = unreachable_server_exits_before_mutation[of ?send ?w ?today ?ask "''Yes''"]
  have p: "exit_status (fst (populator_main ?send ?today ?w)) = 1 \<and>
      filter is_mutation (calls (snd (populator_main ?send ?today ?w))) = filter is_mutation (calls ?w)"
    using T h1 by blast
  have c: "exit_status (fst (cleaner_main ?send ?ask ?w)) = 1 \<and>
      filter is_mutation (calls (snd (cleaner_main ?send ?ask ?w))) = filter is_mutation (calls ?w)"
    using T h2 by blast
  from p c show ?thesis by simp
qed

section \<open>Replacing a venue that exists\<close>

lemma delete_referencing_calls:
  assumes "delete_referencing send t k vid e w = (Inr (), w')"
  shows "calls w' = calls w @ map (DELETE (entity_url t)) (referencing_ids k vid [e])"
proof (cases e)
  case (PDict kvs)
  show ?thesis
  proof (cases "dict_get e ''venueId'' PNone = Inr vid \<and>
      (case dict_get e k PNone of Inr i \<Rightarrow> truthy i | Inl _ \<Rightarrow> False)")
    case True
    then obtain i where i: "dict_get e k PNone = Inr i" "truthy i"
      by (auto split: sum.splits)
    have "delete_referencing send t k vid e w =
        py_bind (delete_entity send t i) (\<lambda>_. ret ()) w"
      using True i by (simp add: delete_referencing_def py_bind_def lift_def)
    with assms have "w' = snd (delete_entity send t i w)"
      by (auto simp add: py_bind_def ret_def split: prod.splits sum.splits)
    then show ?thesis
      using True i by (simp add: delete_entity_calls)
  next
    case False
    then have "delete_referencing send t k vid e w = (Inr (), w)"
      using PDict by (auto simp add: delete_referencing_def py_bind_def lift_def ret_def)
    with assms have "w' = w" by simp
    moreover have "referencing_ids k vid [e] = []" using False by auto
    ultimately show ?thesis by simp
  qed
qed (use assms in \<open>simp_all add: delete_referencing_def py_bind_def lift_def\<close>)

lemma delete_referencing_loop_calls:
  "for_each (delete_referencing send t k vid) es w = (Inr (), w') \<Longrightarrow>
   calls w' = calls w @ map (DELETE (entity_url t)) (referencing_ids k vid es)"
proof (induction es arbitrary: w)
  case Nil
  then show ?case by (simp add: ret_def)
next
  case (Cons e es)
  from Cons.prems obtain w1 where
    1: "delete_referencing send t k vid e w = (Inr (), w1)" and
    2: "for_each (delete_referencing send t k vid) es w1 = (Inr (), w')"
    by (auto simp add: py_bind_def split: prod.splits sum.splits)
  from delete_referencing_calls[OF 1] Cons.IH[OF 2] show ?case by simp
qed

lemma py_bind_Inr:
  "py_bind m f w = (Inr y, w') \<Longrightarrow> \<exists>x w1. m w = (Inr x, w1) \<and> f x w1 = (Inr y, w')"
  by (auto simp add: py_bind_def split: prod.splits sum.splits)

lemma lift_Inr: "lift r w = (Inr x, w') \<Longrightarrow> r = Inr x \<and> w' = w"
  by (simp add: lift_def)

lemma ret_Inr: "ret x w = (Inr y, w') \<Longrightarrow> y = x \<and> w' = w"
  by (auto simp add: ret_def)

lemma create_venue_calls:
  "calls (snd (create_venue send venue_data w)) =
     calls w @ [POST (api_base_url @ ''/venues'') venue_data]"
  by (auto simp add: create_venue_def try_except_def py_bind_def call_def ret_def
      lift_def split: prod.splits sum.splits)

lemma cleanup_venue_data_calls:
  assumes "cleanup_venue_data send venue_id venue_name w = (Inr (), w')"
  shows "\<exists>events evs w2 w3 rooms rms w4.
     get_all_events send w = (Inr events, w2) \<and> py_iter events = Inr evs \<and>
     calls w3 = calls w2 @ map (DELETE (entity_url ''event'')) (referencing_ids ''eventId'' venue_id evs) \<and>
     get_all_rooms send w3 = (Inr rooms, w4) \<and> py_iter rooms = Inr rms \<and>
     calls w' = calls w4 @
       map (DELETE (entity_url ''room'')) (referencing_ids ''roomId'' venue_id rms) @
       [DELETE (entity_url ''venue'') venue_id]"
proof -
  from assms obtain events w2 where 1: "get_all_events send w = (Inr events, w2)"
    and r1: "py_bind (lift (py_iter events)) (\<lambda>es.
     py_bind (for_each (delete_referencing send ''event'' ''eventId'' venue_id) es) (\<lambda>_.
     py_bind (get_all_rooms send) (\<lambda>rooms.
     py_bind (lift (py_iter rooms)) (\<lambda>rs.
     py_bind (for_each (delete_referencing send ''room'' ''roomId'' venue_id) rs) (\<lambda>_.
     py_bind (delete_entity send ''venue'' venue_id) (\<lambda>_.
     ret ())))))) w2 = (Inr (), w')"
    unfolding cleanup_venue_data_def by (blast dest: py_bind_Inr)
  from r1 obtain evs where 2: "py_iter events = Inr evs"
    and r2: "py_bind (for_each (delete_referencing send ''event'' ''eventId'' venue_id) evs) (\<lambda>_.
     py_bind (get_all_rooms send) (\<lambda>rooms.
     py_bind (lift (py_iter rooms)) (\<lambda>rs.
     py_bind (for_each (delete_referencing send ''room'' ''roomId'' venue_id) rs) (\<lambda>_.
     py_bind (delete_entity send ''venue'' venue_id) (\<lambda>_.
     ret ()))))) w2 = (Inr (), w')"
    by (blast dest: py_bind_Inr lift_Inr)
  from r2 obtain u3 w3 where e3: "for_each (delete_referencing send ''event'' ''eventId'' venue_id) evs w2 = (Inr u3, w3)"
    and r3: "py_bind (get_all_rooms send) (\<lambda>rooms.
     py_bind (lift (py_iter rooms)) (\<lambda>rs.
     py_bind (for_each (delete_referencing send ''room'' ''roomId'' venue_id) rs) (\<lambda>_.
     py_bind (delete_entity send ''venue'' venue_id) (\<lambda>_.
     ret ())))) w3 = (Inr (), w')"
    by (blast dest: py_bind_Inr)
  from e3 have 3: "for_each (delete_referencing send ''event'' ''eventId'' venue_id) evs w2 = (Inr (), w3)"
    by simp
  from r3 obtain rooms w4 where 4: "get_all_rooms send w3 = (Inr rooms, w4)"
    and r4: "py_bind (lift (py_iter rooms)) (\<lambda>rs.
     py_bind (for_each (delete_referencing send ''room'' ''roomId'' venue_id) rs) (\<lambda>_.
     py_bind (delete_entity send ''venue'' venue_id) (\<lambda>_.
     ret ()))) w4 = (Inr (), w')"
    by (blast dest: py_bind_Inr)
  from r4 obtain rms where 5: "py_iter rooms = Inr rms"
    and r5: "py_bind (for_each (delete_referencing send ''room'' ''roomId'' venue_id) rms) (\<lambda>_.
     py_bind (delete_entity send ''venue'' venue_id) (\<lambda>_.
     ret ())) w4 = (Inr (), w')"
    by (blast dest: py_bind_Inr lift_Inr)
  from r5 obtain u5 w5 where e6: "for_each (delete_referencing send ''room'' ''roomId'' venue_id) rms w4 = (Inr u5, w5)"
    and r6: "py_bind (delete_entity send ''venue'' venue_id) (\<lambda>_. ret ()) w5 = (Inr (), w')"
    by (blast dest: py_bind_Inr)
  from e6 have 6: "for_each (delete_referencing send ''room'' ''roomId'' venue_id) rms w4 = (Inr (), w5)"
    by simp
  from r6 have 7: "w' = snd (delete_entity send ''venue'' venue_id w5)"
    by (auto simp add: py_bind_def ret_def split: prod.splits sum.splits)
  have c3: "calls w3 = calls w2 @ map (DELETE (entity_url ''event'')) (referencing_ids ''eventId'' venue_id evs)"
    by (rule delete_referencing_loop_calls[OF 3])
  have c5: "calls w5 = calls w4 @ map (DELETE (entity_url ''room'')) (referencing_ids ''roomId'' venue_id rms)"
    by (rule delete_referencing_loop_calls[OF 6])
  have c7: "calls w' = calls w5 @ [DELETE (entity_url ''venue'') venue_id]"
    by (simp add: 7 delete_entity_calls)
  from 1 2 c3 4 5 c5 c7 show ?thesis by auto
qed

text \<open>
  C8. When the seed orchestrator processes a venue of the catalog that it finds by name
  (and nothing raises), its requests are, in this order: the listing of the venues, the
  listing of the events, a \<open>DELETE\<close> of every event of that listing whose \<open>venueId\<close> is the
  found venue's identifier (and that has an identifier), the listing of the rooms, a
  \<open>DELETE\<close> of every such room, the \<open>DELETE\<close> of the venue, and the \<open>POST\<close> that creates the
  venue again from the catalog.
\<close>

theorem existing_venue_replaced_in_order:
  assumes "str_field venue_data ''name'' = Inr venue_name"
    and "find_venue_by_name send venue_name w = (Inr existing_venue, w1)"
    and "truthy existing_venue"
    and "populate_venue send venue_data created_venues w = (Inr created_venues', w')"
  shows "\<exists>venue_id events evs w2 w3 rooms rms w4.
     dict_getitem existing_venue ''venueId'' = Inr venue_id \<and>
     calls w1 = calls w @ [GET (api_base_url @ ''/venues'')] \<and>
     get_all_events send w1 = (Inr events, w2) \<and> py_iter events = Inr evs \<and>
     calls w2 = calls w1 @ [GET (api_base_url @ ''/events'')] \<and>
     calls w3 = calls w2 @
       map (DELETE (entity_url ''event'')) (referencing_ids ''eventId'' venue_id evs) \<and>
     get_all_rooms send w3 = (Inr rooms, w4) \<and> py_iter rooms = Inr rms \<and>
     calls w4 = calls w3 @ [GET (api_base_url @ ''/rooms'')] \<and>
     calls w' = calls w4 @
       map (DELETE (entity_url ''room'')) (referencing_ids ''roomId'' venue_id rms) @
       [DELETE (entity_url ''venue'') venue_id, POST (api_base_url @ ''/venues'') venue_data]"
proof -
  from assms(4) have r0: "py_bind (find_venue_by_name send venue_name) (\<lambda>existing_venue.
     py_bind (if truthy existing_venue then
                py_bind (lift (dict_getitem existing_venue ''venueId'')) (\<lambda>venue_id.
                cleanup_venue_data send venue_id venue_name)
              else ret ()) (\<lambda>_.
     py_bind (create_venue send venue_data) (\<lambda>venue_id.
     ret (if truthy venue_id then dict_set created_venues venue_name venue_id
          else created_venues)))) w = (Inr created_venues', w')"
    using assms(1) by (simp add: populate_venue_def py_bind_def lift_def)
  with assms(2,3) have r1: "py_bind (
                py_bind (lift (dict_getitem existing_venue ''venueId'')) (\<lambda>venue_id.
                cleanup_venue_data send venue_id venue_name)) (\<lambda>_.
     py_bind (create_venue send venue_data) (\<lambda>venue_id.
     ret (if truthy venue_id then dict_set created_venues venue_name venue_id
          else created_venues))) w1 = (Inr created_venues', w')"
    by (simp add: py_bind_def)
  then obtain u w5 where r2: "py_bind (lift (dict_getitem existing_venue ''venueId'')) (\<lambda>venue_id.
                cleanup_venue_data send venue_id venue_name) w1 = (Inr u, w5)"
    and r3: "py_bind (create_venue send venue_data) (\<lambda>venue_id.
     ret (if truthy venue_id then dict_set created_venues venue_name venue_id
          else created_venues)) w5 = (Inr created_venues', w')"
    by (blast dest: py_bind_Inr)
  from r2 obtain venue_id where v: "dict_getitem existing_venue ''venueId'' = Inr venue_id"
    and cl: "cleanup_venue_data send venue_id venue_name w1 = (Inr (), w5)"
    by (auto simp add: py_bind_def lift_def split: sum.splits)
  from r3 have w': "w' = snd (create_venue send venue_data w5)"
    by (auto simp add: py_bind_def ret_def split: prod.splits sum.splits)
  have c': "calls w' = calls w5 @ [POST (api_base_url @ ''/venues'') venue_data]"
    using create_venue_calls[of send venue_data w5] by (simp add: w')
  have c1: "calls w1 = calls w @ [GET (api_base_url @ ''/venues'')]"
    using assms(2) get_all_calls[of "''venues''" send w]
    by (auto simp add: find_venue_by_name_def get_all_venues_def py_bind_def lift_def
        split: prod.splits sum.splits)
  from cleanup_venue_data_calls[OF cl] obtain events evs w2 w3 rooms rms w4 where
    x: "get_all_events send w1 = (Inr events, w2)" "py_iter events = Inr evs"
     "calls w3 = calls w2 @ map (DELETE (entity_url ''event'')) (referencing_ids ''eventId'' venue_id evs)"
     "get_all_rooms send w3 = (Inr rooms, w4)" "py_iter rooms = Inr rms"
     "calls w5 = calls w4 @
       map (DELETE (entity_url ''room'')) (referencing_ids ''roomId'' venue_id rms) @
       [DELETE (entity_url ''venue'') venue_id]"
    by blast
  have c2: "calls w2 = calls w1 @ [GET (api_base_url @ ''/events'')]"
    using x(1) get_all_calls[of "''events''" send w1] by (simp add: get_all_events_def)
  have c4: "calls w4 = calls w3 @ [GET (api_base_url @ ''/rooms'')]"
    using x(4) get_all_calls[of "''rooms''" send w3] by (simp add: get_all_rooms_def)
  from v c1 x c2 c4 c' show ?thesis by auto
qed



theorem existing_venue_replaced_in_order_witness:
  "\<exists>evs rms.
     calls (snd (populate_venue mem_server (hd venues_data) [] \<lparr>srv = example_store, calls = []\<rparr>)) =
       [GET (api_base_url @ ''/venues''), GET (api_base_url @ ''/events'')] @
       map (DELETE (entity_url ''event'')) (referencing_ids ''eventId'' (PInt 1) evs) @
       [GET (api_base_url @ ''/rooms'')] @
       map (DELETE (entity_url ''room'')) (referencing_ids ''roomId'' (PInt 1) rms) @
       [DELETE (entity_url ''venue'') (PInt 1), POST (api_base_url @ ''/venues'') (hd venues_data)]"
proof -
  let ?w = "\<lparr>srv = example_store, calls = []\<rparr>"
  let ?v = "PDict [(''venueId'', PInt 1), (''venueName'', PStr MONKEY_PUZZLE_VENUE)]"
  have h1: "str_field (hd venues_data) ''name'' = Inr MONKEY_PUZZLE_VENUE"
    by (simp add: venues_data_def str_field_def)
  have "fst (find_venue_by_name mem_server MONKEY_PUZZLE_VENUE ?w) = Inr ?v"
    by code_simp
  then have h2: "find_venue_by_name mem_server MONKEY_PUZZLE_VENUE ?w =
      (Inr ?v, snd (find_venue_by_name mem_server MONKEY_PUZZLE_VENUE ?w))"
    by (metis prod.collapse)
  have h3: "truthy ?v" by simp
  have "fst (populate_venue mem_server (hd venues_data) [] ?w) = Inr [(MONKEY_PUZZLE_VENUE, PInt 5)]"
    by code_simp
  then have h4: "populate_venue mem_server (hd venues_data) [] ?w =
      (Inr [(MONKEY_PUZZLE_VENUE, PInt 5)], snd (populate_venue mem_server (hd venues_data) [] ?w))"
    by (metis prod.collapse)
  from existing_venue_replaced_in_order[OF h1 h2 h3 h4]
  obtain venue_id events evs w2 w3 rooms rms w4 where
    x: "dict_getitem ?v ''venueId'' = Inr venue_id \<and>
     calls (snd (find_venue_by_name mem_server MONKEY_PUZZLE_VENUE ?w)) =
       calls ?w @ [GET (api_base_url @ ''/venues'')] \<and>
     get_all_events mem_server (snd (find_venue_by_name mem_server MONKEY_PUZZLE_VENUE ?w)) =
       (Inr events, w2) \<and> py_iter events = Inr evs \<and>
     calls w2 = calls (snd (find_venue_by_name mem_server MONKEY_PUZZLE_VENUE ?w)) @
       [GET (api_base_url @ ''/events'')] \<and>
     calls w3 = calls w2 @
       map (DELETE (entity_url ''event'')) (referencing_ids ''eventId'' venue_id evs) \<and>
     get_all_rooms mem_server w3 = (Inr rooms, w4) \<and> py_iter rooms = Inr rms \<and>
     calls w4 = calls w3 @ [GET (api_base_url @ ''/rooms'')] \<and>
     calls (snd (populate_venue mem_server (hd venues_data) [] ?w)) = calls w4 @
       map (DELETE (entity_url ''room'')) (referencing_ids ''roomId'' venue_id rms) @
       [DELETE (entity_url ''venue'') venue_id, POST (api_base_url @ ''/venues'') (hd venues_data)]"
    by (elim exE) (rule that)
  from x have v: "venue_id = PInt 1" by simp
  from x have "calls (snd (populate_venue mem_server (hd venues_data) [] ?w)) =
       [GET (api_base_url @ ''/venues''), GET (api_base_url @ ''/events'')] @
       map (DELETE (entity_url ''event'')) (referencing_ids ''eventId'' (PInt 1) evs) @
       [GET (api_base_url @ ''/rooms'')] @
       map (DELETE (entity_url ''room'')) (referencing_ids ''roomId'' (PInt 1) rms) @
       [DELETE (entity_url ''venue'') (PInt 1), POST (api_base_url @ ''/venues'') (hd venues_data)]"
    unfolding v by simp
  then show ?thesis by (intro exI)
qed

section \<open>The confirmation of the destructive scripts\<close>

lemma print_loop_calls: "calls (snd (for_each print_event es w)) = calls w"
proof (induction es arbitrary: w)
  case Nil
  then show ?case by (simp add: ret_def)
next
  case (Cons e es)
  have "print_event e w = (fst (print_event e w), w)"
    by (auto simp add: print_event_def py_bind_def lift_def ret_def split: sum.splits)
  then show ?case
    using Cons.IH[of w] by (cases "fst (print_event e w)") (auto simp add: py_bind_def split: prod.splits)
qed

lemma list_events_calls:
  "calls (snd (list_events send w)) = calls w @ [Scan ''events'' None None]"
proof -
  obtain r w1 where c: "call send (Scan ''events'' None None) w = (r, w1)"
    by (cases "call send (Scan ''events'' None None) w")
  have c1: "calls w1 = calls w @ [Scan ''events'' None None]"
    using call_calls[of send "Scan ''events'' None None" w] c by simp
  have p: "calls w2 = calls w1" if "for_each print_event es w1 = (r2, w2)" for es r2 w2
    using print_loop_calls[of es w1] that by simp
  have "calls (snd (list_events send w)) = calls w1"
    using c
    by (auto simp add: list_events_def try_except_def py_bind_def lift_def ret_def
        split: prod.splits sum.splits dest: p)
  with c1 show ?thesis by simp
qed

text \<open>The answer that delete-specific-events compares with yes is lowered and stripped:
  capitals, blanks and the no-break space around the word do not matter.\<close>

lemma strip_lower_yes:
  "strip (lower ('' YES'' @ [CHR 0xA0, CHR 0x85, CHR 0x0A])) = ''yes''"
  "strip (lower (''yes'' @ [CHR 0xA0] @ ''s'')) \<noteq> ''yes''"
  by (simp_all add: lower_def lower_char_def strip_def is_space_def)

text \<open>
  C4, as amended. Each destructive script asks for the confirmation before any delete:
  delete-all asks before its first request, and delete-specific-events asks after one
  scan of the events table, so the answer cannot depend on a delete. When the answer is
  anything other than yes (or y, for delete-all; compared in lower case, and stripped for
  delete-specific-events), the script issues no delete and ends with exit status 0:
  delete-all by \<open>sys.exit(0)\<close>, having issued no request at all, and
  delete-specific-events by returning from \<open>main\<close>.
\<close>

theorem cancelled_confirmation_deletes_nothing:
  "cleaner_main send ask w = cleaner_main send (\<lambda>cs. ask (calls w)) w \<and>
   (ask (calls w) = Inr answer \<and> lower answer \<notin> set [''yes'', ''y''] \<longrightarrow>
      cleaner_main send ask w = (Inl (SystemExit 0), w) \<and>
      exit_status (fst (cleaner_main send ask w)) = 0) \<and>
   deleter_main dsend dask dw =
     deleter_main dsend (\<lambda>cs. dask (calls dw @ [Scan ''events'' None None])) dw \<and>
   (dask (calls dw @ [Scan ''events'' None None]) = Inr danswer \<and>
    strip (lower danswer) \<noteq> ''yes'' \<longrightarrow>
      calls (snd (deleter_main dsend dask dw)) = calls dw @ [Scan ''events'' None None] \<and>
      (fst (list_events dsend dw) = Inr () \<longrightarrow>
         fst (deleter_main dsend dask dw) = Inr () \<and>
         exit_status (fst (deleter_main dsend dask dw)) = 0))"
proof (intro conjI impI)
  show "cleaner_main send ask w = cleaner_main send (\<lambda>cs. ask (calls w)) w"
    by (simp add: cleaner_main_def try_except2_def py_bind_def input_def)
next
  assume a: "ask (calls w) = Inr answer \<and> lower answer \<notin> set [''yes'', ''y'']"
  then show m: "cleaner_main send ask w = (Inl (SystemExit 0), w)"
    by (simp add: cleaner_main_def try_except2_def py_bind_def input_def sys_exit_def)
  then show "exit_status (fst (cleaner_main send ask w)) = 0" by simp
next
  obtain r w1 where l: "list_events dsend dw = (r, w1)" by (cases "list_events dsend dw")
  have c1: "calls w1 = calls dw @ [Scan ''events'' None None]"
    using list_events_calls[of dsend dw] l by simp
  show "deleter_main dsend dask dw =
     deleter_main dsend (\<lambda>cs. dask (calls dw @ [Scan ''events'' None None])) dw"
    using l c1 by (simp add: deleter_main_def py_bind_def input_def split: sum.splits)
next
  assume a: "dask (calls dw @ [Scan ''events'' None None]) = Inr danswer \<and>
    strip (lower danswer) \<noteq> ''yes''"
  obtain r w1 where l: "list_events dsend dw = (r, w1)" by (cases "list_events dsend dw")
  have c1: "calls w1 = calls dw @ [Scan ''events'' None None]"
    using list_events_calls[of dsend dw] l by simp
  show "calls (snd (deleter_main dsend dask dw)) = calls dw @ [Scan ''events'' None None]"
    using l c1 a by (auto simp add: deleter_main_def py_bind_def input_def ret_def split: sum.splits)
  assume "fst (list_events dsend dw) = Inr ()"
  with l have r: "r = Inr ()" by simp
  show m: "fst (deleter_main dsend dask dw) = Inr ()"
    using l c1 a r by (simp add: deleter_main_def py_bind_def input_def ret_def)
  then show "exit_status (fst (deleter_main dsend dask dw)) = 0" by simp
qed

theorem cancelled_confirmation_deletes_nothing_witness:
  "cleaner_main (\<lambda>req s. (Inl ConnectionError, s)) (\<lambda>cs. Inr ''no'') \<lparr>srv = (), calls = []\<rparr> =
     (Inl (SystemExit 0), \<lparr>srv = (), calls = []\<rparr>) \<and>
   calls (snd (deleter_main (\<lambda>req s. (Inr (PDict []), s)) (\<lambda>cs. Inr ''  Nope '')
     \<lparr>srv = (), calls = []\<rparr>)) = [Scan ''events'' None None] \<and>
   exit_status (fst (deleter_main (\<lambda>req s. (Inr (PDict []), s)) (\<lambda>cs. Inr ''  Nope '')
     \<lparr>srv = (), calls = []\<rparr>)) = 0"
proof -
  let ?send = "\<lambda>(req::http_request) (s::unit). (Inl ConnectionError :: py_exn + response, s)"
  let ?ask = "\<lambda>cs::http_request list. Inr ''no'' :: py_exn + string"
  let ?w = "\<lparr>srv = (), calls = []\<rparr> :: (http_request, unit) world"
  let ?dsend = "\<lambda>(req::dynamo_request) (s::unit). (Inr (PDict []) :: py_exn + pyval, s)"
  let ?dask = "\<lambda>cs::dynamo_request list. Inr ''  Nope '' :: py_exn + string"
  let ?dw = "\<lparr>srv = (), calls = []\<rparr> :: (dynamo_request, unit) world"
  have h1: "?ask (calls ?w) = Inr ''no'' \<and> lower ''no'' \<notin> set [''yes'', ''y'']"
    by (simp add: lower_def lower_char_def)
  have h2: "?dask (calls ?dw @ [Scan ''events'' None None]) = Inr ''  Nope '' \<and>
    strip (lower ''  Nope '') \<noteq> ''yes''"
    by (simp add: lower_def lower_char_def strip_def is_space_def)
  note T = cancelled_confirmation_deletes_nothing[of ?send ?ask ?w "''no''" ?dsend ?dask ?dw "''  Nope ''"]
  have a: "cleaner_main ?send ?ask ?w = (Inl (SystemExit 0), ?w)"
    using T h1 by blast
  have h3: "fst (list_events ?dsend ?dw) = Inr ()"
    by (simp add: list_events_def try_except_def py_bind_def call_def lift_def ret_def)
  have b: "exit_status (fst (deleter_main ?dsend ?dask ?dw)) = 0 \<and>
      calls (snd (deleter_main ?dsend ?dask ?dw)) = calls ?dw @ [Scan ''events'' None None]"
    using T h2 h3 by blast
  from a b show ?thesis by simp
qed

text \<open>
  C4, as stated, has the process exit with a nonzero status when the user cancels. With
  the answer "no", both scripts end with exit status 0.
\<close>

theorem cancelled_confirmation_exit_status_counterexample:
  "exit_status (fst (cleaner_main (\<lambda>req s. (Inl ConnectionError, s)) (\<lambda>cs. Inr ''no'')
      \<lparr>srv = (), calls = []\<rparr>)) = 0 \<and>
   exit_status (fst (deleter_main (\<lambda>req s. (Inr (PDict []), s)) (\<lambda>cs. Inr ''no'')
     \<lparr>srv = (), calls = []\<rparr>)) = 0"
  by (simp add: cleaner_main_def deleter_main_def list_events_def try_except2_def try_except_def
      py_bind_def input_def sys_exit_def call_def lift_def ret_def lower_def lower_char_def
      strip_def is_space_def)

section \<open>The routes of the web application\<close>

lemma health_check_payload:
  "health_check =
     Json (PDict [(''status'', PStr ''healthy''), (''message'', PStr ''Scheduler app is running'')])"
  by (simp add: health_check_def)

lemma typing_has_no_str: "''str'' \<notin> set typing_names"
  by (simp add: typing_names_def)

text \<open>
  C9. The blueprint of \<open>app.routes\<close> declares the two routes \<open>/\<close> and \<open>/health\<close>, and
  \<open>health_check\<close> returns the fixed payload. But the module imports the name \<open>str\<close> from
  \<open>typing\<close>, which \<open>typing\<close> does not have: the import raises \<open>ImportError\<close>, and so does
  \<open>create_app\<close>, which imports the module. The application never serves a route.
\<close>

theorem create_app_import_error: "create_app config_name = Inl ImportError"
  by (simp add: create_app_def routes_module_def sum_bind_def import_from_def flask_names_def
      typing_has_no_str)

section \<open>Reading a table page by page\<close>

lemma scan_more_last:
  "scan_more send t f (page its None) items w = Some (Inr items, w)"
  by (subst scan_more.simps) (simp add: page_def dict_has_def)

lemma scan_more_last_unfolded:
  "scan_more send t f (PDict [(''Items'', PList its)]) items w = Some (Inr items, w)"
  using scan_more_last[of send t f its items w] by (simp add: page_def)

lemma scan_more_paged:
  "scan_more paged t f (page its (Some k)) (PList acc)
     \<lparr>srv = pages_of front last_items @ rest, calls = cs\<rparr> =
   Some (Inr (PList (acc @ concat (map fst front) @ last_items)),
         \<lparr>srv = rest, calls = cs @ map (\<lambda>k. Scan t f (Some k)) (k # map snd front)\<rparr>)"
proof (induction front arbitrary: its k acc cs)
  case Nil
  show ?case
    by (subst scan_more.simps)
       (simp add: page_def[of its] dict_has_def call_def pages_of_def scan_more_last,
        simp add: page_def scan_more_last_unfolded)
next
  case (Cons p front)
  have step: "scan_more paged t f (page its (Some k)) (PList acc)
     \<lparr>srv = pages_of (p # front) last_items @ rest, calls = cs\<rparr> =
     scan_more paged t f (page (fst p) (Some (snd p))) (PList (acc @ fst p))
     \<lparr>srv = pages_of front last_items @ rest, calls = cs @ [Scan t f (Some k)]\<rparr>"
    by (subst scan_more.simps)
       (simp add: page_def[of its] dict_has_def call_def pages_of_def,
        simp add: page_def)
  show ?case
    unfolding step Cons.IH by simp
qed

lemma scan_all_paged:
  "scan_all paged t f \<lparr>srv = pages_of front last_items @ rest, calls = cs\<rparr> =
   Some (Inr (PList (concat (map fst front) @ last_items)),
         \<lparr>srv = rest, calls = cs @ Scan t f None # map (\<lambda>p. Scan t f (Some (snd p))) front\<rparr>)"
proof (cases front)
  case Nil
  then show ?thesis
    by (simp add: scan_all_def call_def pages_of_def scan_more_last)
       (simp add: page_def scan_more_last_unfolded)
next
  case (Cons p front')
  have "scan_all paged t f \<lparr>srv = pages_of front last_items @ rest, calls = cs\<rparr> =
    scan_more paged t f (page (fst p) (Some (snd p))) (PList ([] @ fst p))
     \<lparr>srv = pages_of front' last_items @ rest, calls = cs @ [Scan t f None]\<rparr>"
    unfolding Cons
    by (simp add: scan_all_def call_def pages_of_def)
       (simp add: page_def)
  then show ?thesis
    unfolding scan_more_paged by (simp add: Cons comp_def)
qed

lemma map_of_dict_set: "map_of (dict_set d k v) = (map_of d)(k \<mapsto> v)"
  by (induction d k v rule: dict_set.induct) auto

lemma keys_dict_set: "set (map fst (dict_set d k v)) = insert k (set (map fst d))"
  by (induction d k v rule: dict_set.induct) auto

lemma distinct_dict_set: "distinct (map fst d) \<Longrightarrow> distinct (map fst (dict_set d k v))"
proof (induction d k v rule: dict_set.induct)
  case (1 k v)
  then show ?case by simp
next
  case (2 k' v' kvs k v)
  then show ?case by (auto simp add: keys_dict_set simp del: set_map)
qed

lemma users_dict_loop_map_of:
  assumes "list_all is_dict us" and "list_all (\<lambda>e. hashable (fst e)) (user_entries us)"
    and "distinct (map fst d)"
  shows "\<exists>d'. users_dict_loop us d = Inr d' \<and> map_of d' = map_of (rev (user_entries us) @ d) \<and>
     distinct (map fst d')"
  using assms
proof (induction us arbitrary: d)
  case Nil
  then show ?case by (simp add: user_entries_def)
next
  case (Cons u us)
  then obtain kvs where u: "u = PDict kvs" by (cases u) auto
  show ?case
  proof (cases "map_of kvs ''userId''")
    case None
    then have e: "user_entries (u # us) = user_entries us"
      by (simp add: user_entries_def u)
    have "users_dict_loop (u # us) d = users_dict_loop us d"
      using None by (simp add: u dict_has_def)
    with Cons.IH[of d] Cons.prems e show ?thesis by simp
  next
    case (Some uid)
    then have e: "user_entries (u # us) = (uid, u) # user_entries us"
      by (simp add: user_entries_def u)
    with Cons.prems have h: "hashable uid" "list_all (\<lambda>e. hashable (fst e)) (user_entries us)"
      by simp_all
    have step: "users_dict_loop (u # us) d = users_dict_loop us (dict_set d uid u)"
      using Some h by (simp add: u dict_has_def)
    from Cons.IH[of "dict_set d uid u"] Cons.prems h
    obtain d' where d': "users_dict_loop us (dict_set d uid u) = Inr d'"
      "map_of d' = map_of (rev (user_entries us) @ dict_set d uid u)" "distinct (map fst d')"
      by (auto simp add: distinct_dict_set)
    have "map_of (rev (user_entries us) @ dict_set d uid u) =
        map_of (rev (user_entries (u # us)) @ d)"
      by (simp add: e map_of_dict_set)
    with d' step show ?thesis by simp
  qed
qed

text \<open>
  C6, as amended. For every sequence of pages of which all but the last carry a
  \<open>LastEvaluatedKey\<close>, each reader returns: it issues one scan without a start key and one
  scan for every page with a key, with that key as the exclusive start key, and stops at
  the first page without a key. \<open>get_all_venues\<close> and \<open>get_all_events\<close> return the items of
  all the pages in page order, each page once: the result has a duplicate only where the
  pages have one. \<open>get_all_users\<close> returns the items (dictionaries, with hashable
  identifiers) keyed by \<open>userId\<close>: an item without a \<open>userId\<close> is left out, and of the items
  with the same \<open>userId\<close> the last one stays.
\<close>

theorem scan_readers_follow_continuation_keys:
  "lister_get_all_venues paged \<lparr>srv = pages_of front last_items @ rest, calls = cs\<rparr> =
     Some (Inr (PList (concat (map fst front) @ last_items)),
       \<lparr>srv = rest,
        calls = cs @ Scan ''venues'' (entity_filter ''VENUE'') None #
          map (\<lambda>p. Scan ''venues'' (entity_filter ''VENUE'') (Some (snd p))) front\<rparr>) \<and>
   lister_get_all_events paged \<lparr>srv = pages_of front last_items @ rest, calls = cs\<rparr> =
     Some (Inr (PList (concat (map fst front) @ last_items)),
       \<lparr>srv = rest,
        calls = cs @ Scan ''events'' (entity_filter ''EVENT'') None #
          map (\<lambda>p. Scan ''events'' (entity_filter ''EVENT'') (Some (snd p))) front\<rparr>) \<and>
   (list_all is_dict (concat (map fst front) @ last_items) \<and>
    list_all (\<lambda>e. hashable (fst e)) (user_entries (concat (map fst front) @ last_items)) \<longrightarrow>
    (\<exists>users_dict.
       get_all_users paged \<lparr>srv = pages_of front last_items @ rest, calls = cs\<rparr> =
         Some (Inr users_dict,
           \<lparr>srv = rest,
            calls = cs @ Scan ''users'' (Some (''SK = :sk'', [('':sk'', PStr ''PROFILE'')])) None #
              map (\<lambda>p. Scan ''users'' (Some (''SK = :sk'', [('':sk'', PStr ''PROFILE'')]))
                     (Some (snd p))) front\<rparr>) \<and>
       map_of users_dict = map_of (rev (user_entries (concat (map fst front) @ last_items))) \<and>
       distinct (map fst users_dict)))"
proof (intro conjI impI)
  show "lister_get_all_venues paged \<lparr>srv = pages_of front last_items @ rest, calls = cs\<rparr> =
     Some (Inr (PList (concat (map fst front) @ last_items)),
       \<lparr>srv = rest,
        calls = cs @ Scan ''venues'' (entity_filter ''VENUE'') None #
          map (\<lambda>p. Scan ''venues'' (entity_filter ''VENUE'') (Some (snd p))) front\<rparr>)"
    by (simp add: lister_get_all_venues_def scan_all_paged or_empty_def)
  show "lister_get_all_events paged \<lparr>srv = pages_of front last_items @ rest, calls = cs\<rparr> =
     Some (Inr (PList (concat (map fst front) @ last_items)),
       \<lparr>srv = rest,
        calls = cs @ Scan ''events'' (entity_filter ''EVENT'') None #
          map (\<lambda>p. Scan ''events'' (entity_filter ''EVENT'') (Some (snd p))) front\<rparr>)"
    by (simp add: lister_get_all_events_def scan_all_paged or_empty_def)
next
  let ?all = "concat (map fst front) @ last_items"
  assume a: "list_all is_dict ?all \<and> list_all (\<lambda>e. hashable (fst e)) (user_entries ?all)"
  from users_dict_loop_map_of[of ?all "[]"] a
  obtain d' where d': "users_dict_loop ?all [] = Inr d'"
    "map_of d' = map_of (rev (user_entries ?all))" "distinct (map fst d')"
    by auto
  have "get_all_users paged \<lparr>srv = pages_of front last_items @ rest, calls = cs\<rparr> =
         Some (Inr d',
           \<lparr>srv = rest,
            calls = cs @ Scan ''users'' (Some (''SK = :sk'', [('':sk'', PStr ''PROFILE'')])) None #
              map (\<lambda>p. Scan ''users'' (Some (''SK = :sk'', [('':sk'', PStr ''PROFILE'')]))
                     (Some (snd p))) front\<rparr>)"
    by (simp add: get_all_users_def scan_all_paged or_empty_def d')
  with d' show "\<exists>users_dict.
       get_all_users paged \<lparr>srv = pages_of front last_items @ rest, calls = cs\<rparr> =
         Some (Inr users_dict,
           \<lparr>srv = rest,
            calls = cs @ Scan ''users'' (Some (''SK = :sk'', [('':sk'', PStr ''PROFILE'')])) None #
              map (\<lambda>p. Scan ''users'' (Some (''SK = :sk'', [('':sk'', PStr ''PROFILE'')]))
                     (Some (snd p))) front\<rparr>) \<and>
       map_of users_dict = map_of (rev (user_entries (concat (map fst front) @ last_items))) \<and>
       distinct (map fst users_dict)"
    by blast
qed


text \<open>Two pages of users: the first has a user and an item without \<open>userId\<close>, the second
  has the same user again.\<close>

theorem scan_readers_follow_continuation_keys_witness:
  "lister_get_all_venues paged
     \<lparr>srv = pages_of [([PDict [(''venueId'', PStr ''v1'')]], PStr ''k1'')]
                     [PDict [(''venueId'', PStr ''v2'')]], calls = []\<rparr> =
     Some (Inr (PList [PDict [(''venueId'', PStr ''v1'')], PDict [(''venueId'', PStr ''v2'')]]),
       \<lparr>srv = [],
        calls = [Scan ''venues'' (entity_filter ''VENUE'') None,
                 Scan ''venues'' (entity_filter ''VENUE'') (Some (PStr ''k1''))]\<rparr>) \<and>
   (\<exists>users_dict.
      get_all_users paged
        \<lparr>srv = pages_of
           [([PDict [(''userId'', PStr ''u1''), (''name'', PStr ''Ann'')],
              PDict [(''name'', PStr ''Nobody'')]], PStr ''k1'')]
           [PDict [(''userId'', PStr ''u1''), (''name'', PStr ''Ann B'')]], calls = []\<rparr> =
        Some (Inr users_dict,
          \<lparr>srv = [],
           calls = [Scan ''users'' (Some (''SK = :sk'', [('':sk'', PStr ''PROFILE'')])) None,
                    Scan ''users'' (Some (''SK = :sk'', [('':sk'', PStr ''PROFILE'')]))
                      (Some (PStr ''k1''))]\<rparr>) \<and>
      map_of users_dict (PStr ''u1'') =
        Some (PDict [(''userId'', PStr ''u1''), (''name'', PStr ''Ann B'')]) \<and>
      distinct (map fst users_dict))"
proof -
  let ?vfront = "[([PDict [(''venueId'', PStr ''v1'')]], PStr ''k1'')]"
  let ?vlast = "[PDict [(''venueId'', PStr ''v2'')]]"
  let ?front = "[([PDict [(''userId'', PStr ''u1''), (''name'', PStr ''Ann'')],
              PDict [(''name'', PStr ''Nobody'')]], PStr ''k1'')]"
  let ?last = "[PDict [(''userId'', PStr ''u1''), (''name'', PStr ''Ann B'')]]"
  have v: "lister_get_all_venues paged \<lparr>srv = pages_of ?vfront ?vlast @ [], calls = []\<rparr> =
     Some (Inr (PList (concat (map fst ?vfront) @ ?vlast)),
       \<lparr>srv = [],
        calls = [] @ Scan ''venues'' (entity_filter ''VENUE'') None #
          map (\<lambda>p. Scan ''venues'' (entity_filter ''VENUE'') (Some (snd p))) ?vfront\<rparr>)"
    using scan_readers_follow_continuation_keys[of ?vfront ?vlast "[]" "[]"] by blast
  have h: "list_all is_dict (concat (map fst ?front) @ ?last) \<and>
    list_all (\<lambda>e. hashable (fst e)) (user_entries (concat (map fst ?front) @ ?last))"
    by (simp add: user_entries_def)
  obtain users_dict where u:
    "get_all_users paged \<lparr>srv = pages_of ?front ?last @ [], calls = []\<rparr> =
         Some (Inr users_dict,
           \<lparr>srv = [],
            calls = [] @ Scan ''users'' (Some (''SK = :sk'', [('':sk'', PStr ''PROFILE'')])) None #
              map (\<lambda>p. Scan ''users'' (Some (''SK = :sk'', [('':sk'', PStr ''PROFILE'')]))
                     (Some (snd p))) ?front\<rparr>)"
    "map_of users_dict = map_of (rev (user_entries (concat (map fst ?front) @ ?last)))"
    "distinct (map fst users_dict)"
    using scan_readers_follow_continuation_keys[of ?front ?last "[]" "[]"] h by blast
  from u(2) have "map_of users_dict (PStr ''u1'') =
        Some (PDict [(''userId'', PStr ''u1''), (''name'', PStr ''Ann B'')])"
    by (simp add: user_entries_def)
  with u(1,3) v show ?thesis by simp
qed

text \<open>
  C6, as stated, has every reader return the union of the items of all pages, with no
  duplicates. When two pages carry the same item, \<open>get_all_venues\<close> returns it twice; and
  \<open>get_all_users\<close> leaves an item without \<open>userId\<close> out of its result.
\<close>

theorem scan_readers_union_counterexample:
  "lister_get_all_venues paged
     \<lparr>srv = pages_of [([PDict [(''venueId'', PStr ''v1'')]], PStr ''k1'')]
                     [PDict [(''venueId'', PStr ''v1'')]], calls = []\<rparr> =
     Some (Inr (PList [PDict [(''venueId'', PStr ''v1'')], PDict [(''venueId'', PStr ''v1'')]]),
       \<lparr>srv = [],
        calls = [Scan ''venues'' (entity_filter ''VENUE'') None,
                 Scan ''venues'' (entity_filter ''VENUE'') (Some (PStr ''k1''))]\<rparr>) \<and>
   \<not> distinct [PDict [(''venueId'', PStr ''v1'')], PDict [(''venueId'', PStr ''v1'')]] \<and>
   get_all_users paged
     \<lparr>srv = pages_of [] [PDict [(''name'', PStr ''Nobody'')]], calls = []\<rparr> =
     Some (Inr [],
       \<lparr>srv = [],
        calls = [Scan ''users'' (Some (''SK = :sk'', [('':sk'', PStr ''PROFILE'')])) None]\<rparr>)"
  by code_simp

section \<open>The seed orchestrator on the reference datastore\<close>

subsection \<open>The API client on the reference datastore\<close>

lemma total_ret: "(\<And>s. P s \<Longrightarrow> Q x s) \<Longrightarrow> total P (ret x) Q"
  by (simp add: total_def ret_def)

lemma total_lift: "(\<And>s. P s \<Longrightarrow> Q x s) \<Longrightarrow> total P (lift (Inr x)) Q"
  by (simp add: total_def lift_def)

lemma total_bind:
  fixes m :: "('x, ('req, 's) world) prog"
  assumes "total P m R" and "\<And>x. total (R x) (f x) Q"
  shows "total P (py_bind m f) Q"
  unfolding total_def
proof (intro allI impI)
  fix w :: "('req, 's) world" assume "P (srv w)"
  with assms(1) obtain x w1 where 1: "m w = (Inr x, w1)" "R x (srv w1)"
    by (auto simp add: total_def)
  with assms(2)[of x] obtain y w2 where "f x w1 = (Inr y, w2)" "Q y (srv w2)"
    by (auto simp add: total_def)
  with 1 show "\<exists>y w'. py_bind m f w = (Inr y, w') \<and> Q y (srv w')"
    by (simp add: py_bind_def)
qed

lemma total_try: "total P body Q \<Longrightarrow> total P (try_except c body h) Q"
  by (fastforce simp add: total_def try_except_def)

lemma total_call:
  fixes send :: "('req, 'resp, 's) transport"
  assumes "\<And>s. P s \<Longrightarrow> \<exists>r s'. send req s = (Inr r, s') \<and> Q r s'"
  shows "total P (call send req) Q"
  unfolding total_def
proof (intro allI impI)
  fix w :: "('req, 's) world" assume "P (srv w)"
  with assms obtain r s' where "send req (srv w) = (Inr r, s')" "Q r s'" by blast
  then show "\<exists>x w'. call send req w = (Inr x, w') \<and> Q x (srv w')"
    by (simp add: call_def)
qed

lemma total_conseq:
  "total P m Q \<Longrightarrow> (\<And>s. P' s \<Longrightarrow> P s) \<Longrightarrow> (\<And>x s. Q x s \<Longrightarrow> Q' x s) \<Longrightarrow> total P' m Q'"
  by (fastforce simp add: total_def)

lemma total_pre: "(\<And>s. P s \<Longrightarrow> total (\<lambda>t. t = s) m Q) \<Longrightarrow> total P m Q"
  by (simp add: total_def)

lemma root_url: "str_replace ''/api'' '''' api_base_url @ ''/'' = ''http://localhost:3001/''"
  by (simp add: api_base_url_def)

lemma mem_get_root: "mem_get (str_replace ''/api'' '''' api_base_url @ ''/'') s = (ok 200 PNone, s)"
  by (simp add: mem_get_def)

lemma mem_get_venues:
  "mem_get (api_base_url @ ''/venues'') s = (ok 200 (PDict [(''data'', PList (st_venues s))]), s)"
  by (simp add: mem_get_def root_url)

lemma mem_get_rooms:
  "mem_get (api_base_url @ ''/rooms'') s = (ok 200 (PDict [(''data'', PList (st_rooms s))]), s)"
  by (simp add: mem_get_def root_url)

lemma mem_get_events:
  "mem_get (api_base_url @ ''/events'') s = (ok 200 (PDict [(''data'', PList (st_events s))]), s)"
  by (simp add: mem_get_def root_url)

lemma mem_post_signup:
  "mem_post (api_base_url @ ''/auth/signup'') body s = (ok 201 (PDict [(''data'', PDict [])]), s)"
  by (simp add: mem_post_def)

lemma mem_post_login:
  "mem_post (api_base_url @ ''/auth/login'') body s =
     (ok 200 (PDict [(''data'', PDict [(''sessionToken'', PStr ''token'')])]), s)"
  by (simp add: mem_post_def)

lemma mem_post_venues:
  "mem_post (api_base_url @ ''/venues'') body s =
     (ok 201 (PDict [(''data'', PDict [(''venueId'', PInt (int (st_next_id s)))])]),
      s\<lparr>st_venues := st_venues s @
           [PDict [(''venueId'', PInt (int (st_next_id s))), (''venueName'', field body ''name'')]],
        st_next_id := Suc (st_next_id s)\<rparr>)"
  by (simp add: mem_post_def Let_def)

lemma mem_post_rooms:
  "mem_post (api_base_url @ ''/rooms'') body s =
     (ok 201 (PDict [(''data'', PDict [(''roomId'', PInt (int (st_next_id s)))])]),
      s\<lparr>st_rooms := st_rooms s @
           [PDict [(''roomId'', PInt (int (st_next_id s))), (''venueId'', field body ''venueId''),
                   (''roomName'', field body ''name'')]],
        st_next_id := Suc (st_next_id s)\<rparr>)"
  by (simp add: mem_post_def Let_def)

lemma mem_post_events:
  "mem_post (api_base_url @ ''/events'') body s =
     (ok 201 (PDict [(''data'', PDict [(''eventId'', PInt (int (st_next_id s)))])]),
      s\<lparr>st_events := st_events s @
           [PDict [(''eventId'', PInt (int (st_next_id s))), (''venueId'', field body ''venueId''),
                   (''eventName'', field body ''name'')]],
        st_next_id := Suc (st_next_id s)\<rparr>)"
  by (simp add: mem_post_def Let_def)

lemma mem_post_event_rooms:
  "mem_post (api_base_url @ ''/event-rooms'') body s =
     (ok 201 (PDict [(''data'', body)]), s\<lparr>st_event_rooms := st_event_rooms s @ [body]\<rparr>)"
  by (simp add: mem_post_def Let_def)

lemma entity_urls_differ:
  "entity_url ''room'' \<noteq> entity_url ''venue''" "entity_url ''event'' \<noteq> entity_url ''venue''"
  "entity_url ''event'' \<noteq> entity_url ''room''"
  by (simp_all add: entity_url_def)

lemma total_check_server: "total P (populator_check_server mem_server) (\<lambda>x s. x \<and> P s)"
  unfolding populator_check_server_def
  by (intro total_try total_bind[where R="\<lambda>r s. status_code r = 200 \<and> P s"] total_call total_ret)
     (simp_all add: mem_get_root ok_def)

lemma total_authenticate: "total P (authenticate mem_server) (\<lambda>x s. x \<and> P s)"
  unfolding authenticate_def
  apply (rule total_try)
  apply (rule total_bind[where R="\<lambda>r s. P s"])
   apply (rule total_call)
   apply (simp add: mem_post_signup ok_def)
  apply (rule total_bind[where R="\<lambda>r s. r = \<lparr>status_code = 200,
      json_result = Inr (PDict [(''data'', PDict [(''sessionToken'', PStr ''token'')])])\<rparr> \<and> P s"])
   apply (rule total_call)
   apply (simp add: mem_post_login ok_def)
  apply (auto simp add: total_def py_bind_def lift_def ret_def)
  done

lemma total_get_all_venues:
  "total (\<lambda>s. s = s0) (get_all_venues mem_server) (\<lambda>x s. x = PList (st_venues s0) \<and> s = s0)"
  by (simp add: total_def get_all_venues_def get_all_def try_except_def py_bind_def call_def
      lift_def raise_for_status_def mem_get_venues[simplified] ok_def)

lemma total_get_all_rooms:
  "total (\<lambda>s. s = s0) (get_all_rooms mem_server) (\<lambda>x s. x = PList (st_rooms s0) \<and> s = s0)"
  by (simp add: total_def get_all_rooms_def get_all_def try_except_def py_bind_def call_def
      lift_def raise_for_status_def mem_get_rooms[simplified] ok_def)

lemma total_get_all_events:
  "total (\<lambda>s. s = s0) (get_all_events mem_server) (\<lambda>x s. x = PList (st_events s0) \<and> s = s0)"
  by (simp add: total_def get_all_events_def get_all_def try_except_def py_bind_def call_def
      lift_def raise_for_status_def mem_get_events[simplified] ok_def)

lemma total_delete_entity:
  "total (\<lambda>s. s = s0) (delete_entity mem_server t i)
     (\<lambda>x s. s = snd (mem_delete (entity_url t) i s0))"
  by (auto simp add: total_def delete_entity_def try_except_def py_bind_def call_def lift_def
      ret_def raise_for_status_def entity_url_def mem_delete_def ok_def not_found_def
      split: prod.splits sum.splits)

lemma total_create_venue:
  "0 < st_next_id s0 \<Longrightarrow> dict_getitem body ''name'' = Inr n \<Longrightarrow>
   total (\<lambda>s. s = s0) (create_venue mem_server body)
     (\<lambda>x s. x = PInt (int (st_next_id s0)) \<and> s = snd (mem_post (api_base_url @ ''/venues'') body s0))"
  by (simp add: total_def create_venue_def try_except_def py_bind_def call_def
      lift_def ret_def raise_for_status_def mem_post_venues[simplified] ok_def)

lemma total_create_room:
  "0 < st_next_id s0 \<Longrightarrow> is_dict body \<Longrightarrow>
   total (\<lambda>s. s = s0) (create_room mem_server body)
     (\<lambda>x s. x = PInt (int (st_next_id s0)) \<and> s = snd (mem_post (api_base_url @ ''/rooms'') body s0))"
  by (cases body)
     (simp_all add: total_def create_room_def try_except_def py_bind_def call_def
      lift_def ret_def raise_for_status_def mem_post_rooms[simplified] ok_def)

lemma total_create_event:
  "0 < st_next_id s0 \<Longrightarrow> is_dict body \<Longrightarrow>
   total (\<lambda>s. s = s0) (create_event mem_server body)
     (\<lambda>x s. x = PInt (int (st_next_id s0)) \<and> s = snd (mem_post (api_base_url @ ''/events'') body s0))"
  by (cases body)
     (simp_all add: total_def create_event_def try_except_def py_bind_def call_def
      lift_def ret_def raise_for_status_def mem_post_events[simplified] ok_def)

subsection \<open>Cleaning up a venue\<close>

lemma bind_lift_Inr: "py_bind (lift (Inr x)) f = f x"
  by (rule ext) (simp add: py_bind_def lift_def)

lemma bind_ret: "py_bind (ret x) f = f x"
  by (rule ext) (simp add: py_bind_def ret_def)

lemma find_venue_loop_abstract:
  "find_venue_loop (map venue_rec vs) n =
     Inr (case find (\<lambda>v. snd v = PStr n) vs of None \<Rightarrow> PNone | Some v \<Rightarrow> venue_rec v)"
  by (induction vs) (simp_all add: venue_rec_def)

lemma has_id_event: "has_id ''eventId'' (PInt (int i)) (event_rec e) = (fst e = i)"
  by (simp add: has_id_def field_def event_rec_def)

lemma has_id_room: "has_id ''roomId'' (PInt (int i)) (room_rec e) = (fst e = i)"
  by (simp add: has_id_def field_def room_rec_def)

lemma has_id_venue: "has_id ''venueId'' (PInt (int i)) (venue_rec e) = (fst e = i)"
  by (simp add: has_id_def field_def venue_rec_def)

lemma filter_id_absent: "\<not> list_ex P xs \<Longrightarrow> filter (\<lambda>x. \<not> P x) xs = xs"
  by (induction xs) auto

lemma delete_event_represents:
  assumes "represents s a"
  shows "represents (snd (mem_delete (entity_url ''event'') (PInt (int i)) s))
     (a\<lparr>aevents := filter (\<lambda>e. fst e \<noteq> i) (aevents a)\<rparr>)"
proof (cases "list_ex (has_id ''eventId'' (PInt (int i))) (st_events s)")
  case True
  then show ?thesis
    using assms
    by (simp add: mem_delete_def entity_urls_differ represents_def filter_map comp_def has_id_event)
next
  case False
  then have "filter (\<lambda>e. \<not> has_id ''eventId'' (PInt (int i)) e) (st_events s) = st_events s"
    by (rule filter_id_absent)
  then have "map event_rec (filter (\<lambda>e. fst e \<noteq> i) (aevents a)) = st_events s"
    using assms by (simp add: represents_def filter_map comp_def has_id_event)
  with False assms show ?thesis
    by (simp add: mem_delete_def entity_urls_differ represents_def)
qed

lemma delete_room_represents:
  assumes "represents s a"
  shows "represents (snd (mem_delete (entity_url ''room'') (PInt (int i)) s))
     (a\<lparr>arooms := filter (\<lambda>e. fst e \<noteq> i) (arooms a)\<rparr>)"
proof (cases "list_ex (has_id ''roomId'' (PInt (int i))) (st_rooms s)")
  case True
  then show ?thesis
    using assms
    by (simp add: mem_delete_def entity_urls_differ represents_def filter_map comp_def has_id_room)
next
  case False
  then have "filter (\<lambda>e. \<not> has_id ''roomId'' (PInt (int i)) e) (st_rooms s) = st_rooms s"
    by (rule filter_id_absent)
  then have "map room_rec (filter (\<lambda>e. fst e \<noteq> i) (arooms a)) = st_rooms s"
    using assms by (simp add: represents_def filter_map comp_def has_id_room)
  with False assms show ?thesis
    by (simp add: mem_delete_def entity_urls_differ represents_def)
qed

lemma delete_venue_represents:
  assumes "represents s a"
  shows "represents (snd (mem_delete (entity_url ''venue'') (PInt (int i)) s))
     (a\<lparr>avenues := filter (\<lambda>e. fst e \<noteq> i) (avenues a)\<rparr>)"
proof (cases "list_ex (has_id ''venueId'' (PInt (int i))) (st_venues s)")
  case True
  then show ?thesis
    using assms
    by (simp add: mem_delete_def entity_urls_differ represents_def filter_map comp_def has_id_venue)
next
  case False
  then have "filter (\<lambda>e. \<not> has_id ''venueId'' (PInt (int i)) e) (st_venues s) = st_venues s"
    by (rule filter_id_absent)
  then have "map venue_rec (filter (\<lambda>e. fst e \<noteq> i) (avenues a)) = st_venues s"
    using assms by (simp add: represents_def filter_map comp_def has_id_venue)
  with False assms show ?thesis
    by (simp add: mem_delete_def entity_urls_differ represents_def)
qed

lemma total_delete_referencing_event:
  assumes "0 < fst e"
  shows "total (\<lambda>s. represents s a)
     (delete_referencing mem_server ''event'' ''eventId'' (PInt (int vid)) (event_rec e))
     (\<lambda>_ s. represents s
        (a\<lparr>aevents := filter (\<lambda>x. \<not> (fst (snd e) = vid \<and> fst x = fst e)) (aevents a)\<rparr>))"
proof (cases "fst (snd e) = vid")
  case True
  have "total (\<lambda>s. represents s a)
     (py_bind (delete_entity mem_server ''event'' (PInt (int (fst e)))) (\<lambda>_. ret ()))
     (\<lambda>_ s. represents s (a\<lparr>aevents := filter (\<lambda>x. fst x \<noteq> fst e) (aevents a)\<rparr>))"
    apply (rule total_pre)
    apply (rule total_bind[OF total_delete_entity])
    apply (rule total_ret)
    apply (simp add: delete_event_represents)
    done
  then show ?thesis
    using True assms
    by (simp add: delete_referencing_def event_rec_def bind_lift_Inr)
next
  case False
  then show ?thesis
    by (simp add: delete_referencing_def event_rec_def bind_lift_Inr ret_def total_def)
qed

lemma total_delete_referencing_room:
  assumes "0 < fst e"
  shows "total (\<lambda>s. represents s a)
     (delete_referencing mem_server ''room'' ''roomId'' (PInt (int vid)) (room_rec e))
     (\<lambda>_ s. represents s
        (a\<lparr>arooms := filter (\<lambda>x. \<not> (fst (snd e) = vid \<and> fst x = fst e)) (arooms a)\<rparr>))"
proof (cases "fst (snd e) = vid")
  case True
  have "total (\<lambda>s. represents s a)
     (py_bind (delete_entity mem_server ''room'' (PInt (int (fst e)))) (\<lambda>_. ret ()))
     (\<lambda>_ s. represents s (a\<lparr>arooms := filter (\<lambda>x. fst x \<noteq> fst e) (arooms a)\<rparr>))"
    apply (rule total_pre)
    apply (rule total_bind[OF total_delete_entity])
    apply (rule total_ret)
    apply (simp add: delete_room_represents)
    done
  then show ?thesis
    using True assms
    by (simp add: delete_referencing_def room_rec_def bind_lift_Inr)
next
  case False
  then show ?thesis
    by (simp add: delete_referencing_def room_rec_def bind_lift_Inr ret_def total_def)
qed

lemma total_gen: "(R \<Longrightarrow> total P m Q) \<Longrightarrow> total (\<lambda>s. R \<and> P s) m Q"
  by (simp add: total_def)

lemma astore_aevents_twice:
  "a\<lparr>aevents := xs\<rparr>\<lparr>aevents := ys\<rparr> = a\<lparr>aevents := ys\<rparr>"
  by simp

lemma total_delete_events_loop:
  assumes "\<forall>e \<in> set es. 0 < fst e"
  shows "total (\<lambda>s. represents s a)
     (for_each (delete_referencing mem_server ''event'' ''eventId'' (PInt (int vid)))
        (map event_rec es))
     (\<lambda>_ s. represents s
        (a\<lparr>aevents := filter (\<lambda>x. \<not> (\<exists>e \<in> set es. fst (snd e) = vid \<and> fst x = fst e))
                          (aevents a)\<rparr>))"
  using assms
proof (induction es arbitrary: a)
  case Nil
  show ?case by (simp add: total_ret)
next
  case (Cons e es)
  let ?a1 = "a\<lparr>aevents := filter (\<lambda>x. \<not> (fst (snd e) = vid \<and> fst x = fst e)) (aevents a)\<rparr>"
  have 1: "total (\<lambda>s. represents s a)
     (delete_referencing mem_server ''event'' ''eventId'' (PInt (int vid)) (event_rec e))
     (\<lambda>_ s. represents s ?a1)"
    using Cons.prems by (intro total_delete_referencing_event) simp
  have 2: "total (\<lambda>s. represents s ?a1)
     (for_each (delete_referencing mem_server ''event'' ''eventId'' (PInt (int vid)))
        (map event_rec es))
     (\<lambda>_ s. represents s
        (?a1\<lparr>aevents := filter (\<lambda>x. \<not> (\<exists>e \<in> set es. fst (snd e) = vid \<and> fst x = fst e))
                          (aevents ?a1)\<rparr>))"
    using Cons.prems by (intro Cons.IH) simp
  have eq: "?a1\<lparr>aevents := filter (\<lambda>x. \<not> (\<exists>e \<in> set es. fst (snd e) = vid \<and> fst x = fst e))
                          (aevents ?a1)\<rparr> =
      a\<lparr>aevents := filter (\<lambda>x. \<not> (\<exists>e' \<in> set (e # es). fst (snd e') = vid \<and> fst x = fst e'))
                          (aevents a)\<rparr>"
    by (auto intro!: filter_cong)
  show ?case
    using total_bind[OF 1, of "\<lambda>_. for_each
        (delete_referencing mem_server ''event'' ''eventId'' (PInt (int vid))) (map event_rec es)",
        OF 2]
    by (simp add: eq)
qed

lemma total_delete_rooms_loop:
  assumes "\<forall>e \<in> set es. 0 < fst e"
  shows "total (\<lambda>s. represents s a)
     (for_each (delete_referencing mem_server ''room'' ''roomId'' (PInt (int vid)))
        (map room_rec es))
     (\<lambda>_ s. represents s
        (a\<lparr>arooms := filter (\<lambda>x. \<not> (\<exists>e \<in> set es. fst (snd e) = vid \<and> fst x = fst e))
                          (arooms a)\<rparr>))"
  using assms
proof (induction es arbitrary: a)
  case Nil
  show ?case by (simp add: total_ret)
next
  case (Cons e es)
  let ?a1 = "a\<lparr>arooms := filter (\<lambda>x. \<not> (fst (snd e) = vid \<and> fst x = fst e)) (arooms a)\<rparr>"
  have 1: "total (\<lambda>s. represents s a)
     (delete_referencing mem_server ''room'' ''roomId'' (PInt (int vid)) (room_rec e))
     (\<lambda>_ s. represents s ?a1)"
    using Cons.prems by (intro total_delete_referencing_room) simp
  have 2: "total (\<lambda>s. represents s ?a1)
     (for_each (delete_referencing mem_server ''room'' ''roomId'' (PInt (int vid)))
        (map room_rec es))
     (\<lambda>_ s. represents s
        (?a1\<lparr>arooms := filter (\<lambda>x. \<not> (\<exists>e \<in> set es. fst (snd e) = vid \<and> fst x = fst e))
                          (arooms ?a1)\<rparr>))"
    using Cons.prems by (intro Cons.IH) simp
  have eq: "?a1\<lparr>arooms := filter (\<lambda>x. \<not> (\<exists>e \<in> set es. fst (snd e) = vid \<and> fst x = fst e))
                          (arooms ?a1)\<rparr> =
      a\<lparr>arooms := filter (\<lambda>x. \<not> (\<exists>e' \<in> set (e # es). fst (snd e') = vid \<and> fst x = fst e'))
                          (arooms a)\<rparr>"
    by (auto intro!: filter_cong)
  show ?case
    using total_bind[OF 1, of "\<lambda>_. for_each
        (delete_referencing mem_server ''room'' ''roomId'' (PInt (int vid))) (map room_rec es)",
        OF 2]
    by (simp add: eq)
qed

lemma filter_referencing:
  assumes "distinct (map fst xs)"
  shows "filter (\<lambda>x. \<not> (\<exists>e \<in> set xs. fst (snd e) = vid \<and> fst x = fst e)) xs =
         filter (\<lambda>x. fst (snd x) \<noteq> vid) xs"
proof (rule filter_cong[OF refl])
  fix x assume x: "x \<in> set xs"
  have "e = x" if "e \<in> set xs" "fst x = fst e" for e
    using assms x that by (metis eq_key_imp_eq_value prod.collapse)
  then show "(\<not> (\<exists>e \<in> set xs. fst (snd e) = vid \<and> fst x = fst e)) = (fst (snd x) \<noteq> vid)"
    using x by auto
qed

lemma total_get_all_events_repr:
  "total (\<lambda>s. represents s a) (get_all_events mem_server)
     (\<lambda>x s. x = PList (map event_rec (aevents a)) \<and> represents s a)"
  using total_get_all_events unfolding total_def represents_def by fastforce

lemma total_get_all_rooms_repr:
  "total (\<lambda>s. represents s a) (get_all_rooms mem_server)
     (\<lambda>x s. x = PList (map room_rec (arooms a)) \<and> represents s a)"
  using total_get_all_rooms unfolding total_def represents_def by fastforce

lemma total_get_all_venues_repr:
  "total (\<lambda>s. represents s a) (get_all_venues mem_server)
     (\<lambda>x s. x = PList (map venue_rec (avenues a)) \<and> represents s a)"
  using total_get_all_venues unfolding total_def represents_def by fastforce

lemma total_cleanup_venue_data:
  assumes "consistent a"
  shows "total (\<lambda>s. represents s a) (cleanup_venue_data mem_server (PInt (int vid)) n)
     (\<lambda>_ s. represents s (remove_venue vid a))"
proof -
  let ?a1 = "a\<lparr>aevents := filter (\<lambda>x. fst (snd x) \<noteq> vid) (aevents a)\<rparr>"
  let ?a2 = "?a1\<lparr>arooms := filter (\<lambda>x. fst (snd x) \<noteq> vid) (arooms a)\<rparr>"
  have ev: "total (\<lambda>s. represents s a)
     (for_each (delete_referencing mem_server ''event'' ''eventId'' (PInt (int vid)))
        (map event_rec (aevents a)))
     (\<lambda>_ s. represents s ?a1)"
  proof -
    have d: "distinct (map fst (aevents a))" and p: "\<forall>e \<in> set (aevents a). 0 < fst e"
      using assms by (simp_all add: consistent_def)
    show ?thesis
      using total_delete_events_loop[OF p, of a vid] unfolding filter_referencing[OF d] .
  qed
  have rm: "total (\<lambda>s. represents s ?a1)
     (for_each (delete_referencing mem_server ''room'' ''roomId'' (PInt (int vid)))
        (map room_rec (arooms a)))
     (\<lambda>_ s. represents s ?a2)"
  proof -
    have d: "distinct (map fst (arooms a))" and p: "\<forall>e \<in> set (arooms a). 0 < fst e"
      using assms by (simp_all add: consistent_def)
    have "arooms ?a1 = arooms a" by simp
    then show ?thesis
      using total_delete_rooms_loop[OF p, of ?a1 vid] unfolding filter_referencing[OF d]
      by (simp only: filter_referencing[OF d])
  qed
  have dv: "total (\<lambda>s. represents s ?a2)
     (py_bind (delete_entity mem_server ''venue'' (PInt (int vid))) (\<lambda>_. ret ()))
     (\<lambda>_ s. represents s (remove_venue vid a))"
    apply (rule total_pre)
    apply (rule total_bind[OF total_delete_entity])
    apply (rule total_ret)
    apply (drule delete_venue_represents[where i = vid])
    apply (simp add: remove_venue_def represents_def)
    done
  show ?thesis
    unfolding cleanup_venue_data_def
    apply (rule total_bind[OF total_get_all_events_repr])
    apply (rule total_gen)
    apply (simp add: bind_lift_Inr)
    apply (rule total_bind[OF ev])
    apply (rule total_bind[OF total_get_all_rooms_repr])
    apply (rule total_gen)
    apply (simp add: bind_lift_Inr)
    apply (rule total_bind[OF rm])
    apply (rule dv)
    done
qed

subsection \<open>Replacing a venue and creating its rooms\<close>

lemma total_find_venue_by_name:
  "total (\<lambda>s. represents s a) (find_venue_by_name mem_server n)
     (\<lambda>x s. x = (case find (\<lambda>v. snd v = PStr n) (avenues a) of
                     None \<Rightarrow> PNone | Some v \<Rightarrow> venue_rec v) \<and> represents s a)"
  unfolding find_venue_by_name_def
  apply (rule total_bind[OF total_get_all_venues_repr])
  apply (rule total_gen)
  apply (simp add: bind_lift_Inr find_venue_loop_abstract)
  apply (rule total_lift)
  apply simp
  done

lemma create_venue_represents:
  assumes "represents s a" and "field body ''name'' = PStr n"
  shows "represents (snd (mem_post (api_base_url @ ''/venues'') body s)) (add_venue n a)"
  using assms by (simp add: mem_post_venues represents_def add_venue_def venue_rec_def)

lemma total_create_venue_repr:
  assumes "0 < anext a" and "field body ''name'' = PStr n"
  shows "total (\<lambda>s. represents s a) (create_venue mem_server body)
     (\<lambda>x s. x = PInt (int (anext a)) \<and> represents s (add_venue n a))"
proof (rule total_pre)
  fix s assume r: "represents s a"
  then have "0 < st_next_id s" using assms(1) by (simp add: represents_def)
  moreover have "dict_getitem body ''name'' = Inr (PStr n)"
    using assms(2) by (cases body) (auto simp add: field_def split: option.splits)
  ultimately have "total (\<lambda>t. t = s) (create_venue mem_server body)
     (\<lambda>x t. x = PInt (int (st_next_id s)) \<and> t = snd (mem_post (api_base_url @ ''/venues'') body s))"
    by (rule total_create_venue)
  then show
    "total (\<lambda>t. t = s) (create_venue mem_server body)
       (\<lambda>x s. x = PInt (int (anext a)) \<and> represents s (add_venue n a))"
    using r create_venue_represents[OF r assms(2)]
    by (auto simp add: total_def represents_def)
qed

lemma anext_remove_venue: "anext (remove_venue vid a) = anext a"
  by (simp add: remove_venue_def)

lemma total_populate_venue:
  assumes "consistent a" and "str_field vd ''name'' = Inr n" and "field vd ''name'' = PStr n"
  shows "total (\<lambda>s. represents s a) (populate_venue mem_server vd cv)
     (\<lambda>x s. x = dict_set cv n (PInt (int (anext a))) \<and> represents s (replace_venue n a))"
proof -
  have pos: "0 < anext a" using assms(1) by (simp add: consistent_def)
  show ?thesis
  proof (cases "find (\<lambda>v. snd v = PStr n) (avenues a)")
    case None
    have c: "total (\<lambda>s. represents s a) (create_venue mem_server vd)
       (\<lambda>x s. x = PInt (int (anext a)) \<and> represents s (replace_venue n a))"
      using total_create_venue_repr[OF pos assms(3)] by (simp add: replace_venue_def None)
    show ?thesis
      unfolding populate_venue_def
      apply (simp add: assms(2) bind_lift_Inr)
      apply (rule total_bind[OF total_find_venue_by_name])
      apply (rule total_gen)
      apply (simp add: None bind_ret)
      apply (rule total_bind[OF c])
      apply (rule total_gen)
      apply (rule total_ret)
      apply (simp add: pos)
      done
  next
    case (Some v)
    have c: "total (\<lambda>s. represents s (remove_venue (fst v) a)) (create_venue mem_server vd)
       (\<lambda>x s. x = PInt (int (anext a)) \<and> represents s (replace_venue n a))"
      using total_create_venue_repr[of "remove_venue (fst v) a" vd n] pos assms(3)
      by (simp add: replace_venue_def Some anext_remove_venue)
    show ?thesis
      unfolding populate_venue_def
      apply (simp add: assms(2) bind_lift_Inr)
      apply (rule total_bind[OF total_find_venue_by_name])
      apply (rule total_gen)
      apply (simp add: Some venue_rec_def bind_lift_Inr)
      apply (rule total_bind[OF total_cleanup_venue_data[OF assms(1)]])
      apply (rule total_bind[OF c])
      apply (rule total_gen)
      apply (rule total_ret)
      apply (simp add: pos)
      done
  qed
qed

lemma map_of_dict_del: "map_of (dict_del kvs k) k' = (if k' = k then None else map_of kvs k')"
  by (induction kvs) (auto simp add: dict_del_def)

lemma create_room_represents:
  assumes "represents s a" and "field body ''name'' = n" and "field body ''venueId'' = PInt (int vid)"
  shows "represents (snd (mem_post (api_base_url @ ''/rooms'') body s)) (add_room vid a n)"
  using assms by (simp add: mem_post_rooms represents_def add_room_def room_rec_def)

lemma create_event_represents:
  assumes "represents s a" and "field body ''name'' = n" and "field body ''venueId'' = PInt (int vid)"
  shows "represents (snd (mem_post (api_base_url @ ''/events'') body s)) (add_event vid a n)"
  using assms by (simp add: mem_post_events represents_def add_event_def event_rec_def)

lemma total_create_room_repr:
  assumes "0 < anext a" and "field body ''name'' = n" and "field body ''venueId'' = PInt (int vid)"
    and "is_dict body"
  shows "total (\<lambda>s. represents s a) (create_room mem_server body)
     (\<lambda>x s. x = PInt (int (anext a)) \<and> represents s (add_room vid a n))"
proof (rule total_pre)
  fix s assume r: "represents s a"
  then have "0 < st_next_id s" using assms(1) by (simp add: represents_def)
  from total_create_room[OF this assms(4)] show
    "total (\<lambda>t. t = s) (create_room mem_server body)
       (\<lambda>x s. x = PInt (int (anext a)) \<and> represents s (add_room vid a n))"
    using r create_room_represents[OF r assms(2,3)]
    by (auto simp add: total_def represents_def)
qed

lemma total_create_event_repr:
  assumes "0 < anext a" and "field body ''name'' = n" and "field body ''venueId'' = PInt (int vid)"
    and "is_dict body"
  shows "total (\<lambda>s. represents s a) (create_event mem_server body)
     (\<lambda>x s. x = PInt (int (anext a)) \<and> represents s (add_event vid a n))"
proof (rule total_pre)
  fix s assume r: "represents s a"
  then have "0 < st_next_id s" using assms(1) by (simp add: represents_def)
  from total_create_event[OF this assms(4)] show
    "total (\<lambda>t. t = s) (create_event mem_server body)
       (\<lambda>x s. x = PInt (int (anext a)) \<and> represents s (add_event vid a n))"
    using r create_event_represents[OF r assms(2,3)]
    by (auto simp add: total_def represents_def)
qed

lemma total_populate_room:
  assumes "0 < anext a" and "map_of kvs ''roomName'' = Some rn"
  shows "total (\<lambda>s. represents s a)
     (populate_room mem_server (PInt (int vid)) n (PDict kvs) cr)
     (\<lambda>x s. represents s (add_room vid a rn))"
proof -
  let ?body = "PDict (dict_del
           (dict_set (dict_set kvs ''venueId'' (PInt (int vid))) ''name'' rn) ''roomName'')"
  have c: "total (\<lambda>s. represents s a) (create_room mem_server ?body)
     (\<lambda>x s. x = PInt (int (anext a)) \<and> represents s (add_room vid a rn))"
    by (rule total_create_room_repr[OF assms(1)])
       (simp_all add: field_def map_of_dict_del map_of_dict_set)
  show ?thesis
    unfolding populate_room_def
    apply (simp add: assms(2) bind_lift_Inr)
    apply (rule total_bind[OF c])
    apply (rule total_gen)
    apply (simp add: assms(1))
    apply (rule total_ret)
    apply simp
    done
qed

lemma anext_add_room: "anext (add_room vid a n) = Suc (anext a)"
  by (simp add: add_room_def)

lemma anext_add_event: "anext (add_event vid a n) = Suc (anext a)"
  by (simp add: add_event_def)

lemma total_rooms_loop:
  assumes "0 < anext a" and "\<forall>rd \<in> set rds. is_dict rd \<and> dict_has (dict_items rd) ''roomName''"
  shows "total (\<lambda>s. represents s a)
     (for_acc (populate_room mem_server (PInt (int vid)) n) rds cr)
     (\<lambda>x s. represents s (foldl (add_room vid) a (map (\<lambda>rd. field rd ''roomName'') rds)))"
  using assms
proof (induction rds arbitrary: a cr)
  case Nil
  then show ?case by (simp add: total_ret)
next
  case (Cons rd rds)
  then obtain kvs rn where rd: "rd = PDict kvs" "map_of kvs ''roomName'' = Some rn"
    by (cases rd) (auto simp add: dict_has_def)
  then have f: "field rd ''roomName'' = rn" by (simp add: field_def)
  have 1: "total (\<lambda>s. represents s a)
     (populate_room mem_server (PInt (int vid)) n rd cr)
     (\<lambda>x s. represents s (add_room vid a rn))"
    unfolding rd(1) by (rule total_populate_room[OF Cons.prems(1) rd(2)])
  have 2: "total (\<lambda>s. represents s (add_room vid a rn))
     (for_acc (populate_room mem_server (PInt (int vid)) n) rds cr')
     (\<lambda>x s. represents s (foldl (add_room vid) (add_room vid a rn)
         (map (\<lambda>rd. field rd ''roomName'') rds)))" for cr'
    using Cons.prems by (intro Cons.IH) (simp_all add: anext_add_room)
  show ?case
    using total_bind[OF 1, of "for_acc (populate_room mem_server (PInt (int vid)) n) rds", OF 2]
    by (simp add: f)
qed

subsection \<open>Creating the events\<close>

lemma has_str_field:
  assumes "has_str (PDict kvs) k"
  shows "\<exists>s. str_field (PDict kvs) k = Inr s \<and> field (PDict kvs) k = PStr s"
proof (cases "map_of kvs k")
  case None
  with assms show ?thesis by (simp add: has_str_def)
next
  case (Some v)
  with assms show ?thesis
    by (cases v) (simp_all add: has_str_def str_field_def field_def)
qed

lemma has_str_dict_set:
  "k \<noteq> k' \<Longrightarrow> has_str (PDict (dict_set kvs k' v)) k = has_str (PDict kvs) k"
  by (simp add: has_str_def map_of_dict_set)

lemma event_rooms_represents:
  "represents s a \<Longrightarrow> represents (snd (mem_post (api_base_url @ ''/event-rooms'') body s)) a"
  by (simp add: mem_post_event_rooms represents_def)

lemma total_assign_room_to_event:
  assumes "has_str (PDict kvs) ''eventDate''" "has_str (PDict kvs) ''startTime''"
    "has_str (PDict kvs) ''endDate''" "has_str (PDict kvs) ''endTime''"
  shows "total (\<lambda>s. represents s a) (assign_room_to_event mem_server eid rid (PDict kvs))
     (\<lambda>x s. represents s a)"
proof -
  from assms obtain d1 t1 d2 t2 where f:
    "str_field (PDict kvs) ''eventDate'' = Inr d1" "str_field (PDict kvs) ''startTime'' = Inr t1"
    "str_field (PDict kvs) ''endDate'' = Inr d2" "str_field (PDict kvs) ''endTime'' = Inr t2"
    by (blast dest: has_str_field)
  show ?thesis
    unfolding assign_room_to_event_def
    apply (simp add: f bind_lift_Inr)
    apply (rule total_try)
    apply (rule total_bind[where R="\<lambda>r s. status_code r = 201 \<and> represents s a"])
     apply (rule total_call)
     apply (simp add: mem_post_event_rooms ok_def represents_def)
    apply (rule total_gen)
    apply (simp add: raise_for_status_def bind_lift_Inr)
    apply (rule total_ret)
    apply simp
    done
qed

lemma total_assign_rooms:
  assumes "has_str (PDict kvs) ''eventDate''" "has_str (PDict kvs) ''startTime''"
    "has_str (PDict kvs) ''endDate''" "has_str (PDict kvs) ''endTime''"
  shows "total (\<lambda>s. represents s a) (assign_rooms mem_server eid (PDict kvs) vn crs)
     (\<lambda>x s. represents s a)"
  unfolding assign_rooms_def
proof (induction crs)
  case Nil
  show ?case by (simp add: total_ret)
next
  case (Cons c crs)
  have 1: "total (\<lambda>s. represents s a)
     (if snd (snd c) = vn
      then py_bind (assign_room_to_event mem_server eid (fst c) (PDict kvs)) (\<lambda>success. ret ())
      else ret ())
     (\<lambda>x s. represents s a)"
    by (auto intro!: total_bind[OF total_assign_room_to_event[OF assms]] total_ret)
  show ?case
    apply (subst for_each.simps)
    apply (rule total_bind[OF 1])
    apply (rule Cons.IH)
    done
qed

lemma total_populate_event_dict:
  assumes "0 < anext a" and "event_data_ok (PDict kvs)"
    and "map_of cv (venue_name_of (PDict kvs)) = Some (PInt (int vid))"
  shows "total (\<lambda>s. represents s a) (populate_event mem_server cv crs (PDict kvs) ces)
     (\<lambda>x s. represents s (add_event vid a (field (PDict kvs) ''name'')))"
proof -
  from assms(2) obtain vn where
    vn: "str_field (PDict kvs) ''venueName'' = Inr vn" "field (PDict kvs) ''venueName'' = PStr vn"
    unfolding event_data_ok_def by (blast dest: has_str_field)
  then have vno: "venue_name_of (PDict kvs) = vn" by (simp add: venue_name_of_def)
  have m: "map_of cv vn = Some (PInt (int vid))" using assms(3) vno by simp
  let ?body = "PDict (dict_set kvs ''venueId'' (PInt (int vid)))"
  have c: "total (\<lambda>s. represents s a) (create_event mem_server ?body)
     (\<lambda>x s. x = PInt (int (anext a)) \<and> represents s (add_event vid a (field (PDict kvs) ''name'')))"
    by (rule total_create_event_repr[OF assms(1)])
       (simp_all add: field_def map_of_dict_set)
  have hs: "has_str ?body ''eventDate''" "has_str ?body ''startTime''"
    "has_str ?body ''endDate''" "has_str ?body ''endTime''"
    using assms(2) by (simp_all add: has_str_dict_set event_data_ok_def)
  have as: "total (\<lambda>s. represents s a') (assign_rooms mem_server eid ?body vn' crs)
     (\<lambda>x s. represents s a')" for a' eid vn'
    by (rule total_assign_rooms[OF hs])
  have nz: "(int (anext a) \<noteq> 0) = True" using assms(1) by simp
  from assms(2) obtain nm where nm: "dict_getitem (PDict kvs) ''name'' = Inr nm"
    unfolding event_data_ok_def has_str_def
    by (cases "map_of kvs ''name''") auto
  have rest: "total (\<lambda>s. represents s a')
      (py_bind (if vn = MONKEY_PUZZLE_VENUE
                then py_bind (lift (dict_getitem (PDict kvs) ''name''))
                       (\<lambda>_. assign_rooms mem_server eid ?body vn crs)
                else ret ())
         (\<lambda>_. ret (ces @ [eid])))
      (\<lambda>x s. represents s a')" for a' eid
  proof (cases "vn = MONKEY_PUZZLE_VENUE")
    case True
    show ?thesis
      by (simp only: True refl if_True nm bind_lift_Inr)
         (rule total_bind[OF as], rule total_ret, simp)
  next
    case False
    show ?thesis
      by (simp add: False bind_ret total_ret)
  qed
  show ?thesis
    unfolding populate_event_def
    apply (simp only: vn bind_lift_Inr m option.case dict_items.simps)
    apply (rule total_bind[OF c])
    apply (rule total_gen)
    apply hypsubst
    apply (simp only: truthy.simps nz if_True)
    apply (rule rest)
    done
qed

lemma total_populate_event:
  assumes "0 < anext a" and "event_data_ok ed"
    and "map_of cv (venue_name_of ed) = Some (PInt (int vid))"
  shows "total (\<lambda>s. represents s a) (populate_event mem_server cv crs ed ces)
     (\<lambda>x s. represents s (add_event vid a (field ed ''name'')))"
proof -
  from assms(2) obtain kvs where ed: "ed = PDict kvs"
    by (cases ed) (auto simp add: event_data_ok_def)
  show ?thesis
    using assms unfolding ed by (rule total_populate_event_dict)
qed

lemma total_events_loop:
  assumes "0 < anext a"
    and "\<forall>ed \<in> set eds. event_data_ok ed \<and>
           map_of cv (venue_name_of ed) = Some (PInt (int (vid_of (venue_name_of ed))))"
  shows "total (\<lambda>s. represents s a)
     (for_acc (populate_event mem_server cv crs) eds ces)
     (\<lambda>x s. represents s
        (foldl (\<lambda>a ed. add_event (vid_of (venue_name_of ed)) a (field ed ''name'')) a eds))"
  using assms
proof (induction eds arbitrary: a ces)
  case Nil
  then show ?case by (simp add: total_ret)
next
  case (Cons ed eds)
  let ?a1 = "add_event (vid_of (venue_name_of ed)) a (field ed ''name'')"
  have 1: "total (\<lambda>s. represents s a) (populate_event mem_server cv crs ed ces)
     (\<lambda>x s. represents s ?a1)"
    using Cons.prems by (intro total_populate_event) simp_all
  have 2: "total (\<lambda>s. represents s ?a1)
     (for_acc (populate_event mem_server cv crs) eds ces')
     (\<lambda>x s. represents s
        (foldl (\<lambda>a ed. add_event (vid_of (venue_name_of ed)) a (field ed ''name'')) ?a1 eds))"
    for ces'
    using Cons.prems by (intro Cons.IH) (simp_all add: anext_add_event)
  show ?case
    using total_bind[OF 1, of "for_acc (populate_event mem_server cv crs) eds", OF 2]
    by simp
qed

subsection \<open>A run of the orchestrator as a function on datastores\<close>

lemma events_data_catalog:
  "map (\<lambda>ed. (venue_name_of ed, field ed ''name'')) (events_data r) = catalog_events"
  by (simp add: events_data_def catalog_events_def venue_name_of_def field_def)

lemma events_data_ok: "\<forall>ed \<in> set (events_data r). event_data_ok ed"
  by (simp add: events_data_def event_data_ok_def has_str_def)

lemma events_data_venues:
  "\<forall>ed \<in> set (events_data r).
     venue_name_of ed = MONKEY_PUZZLE_VENUE \<or> venue_name_of ed = DOUBLE_TREE_VENUE"
  by (simp add: events_data_def venue_name_of_def field_def)

lemma venue_names_differ: "MONKEY_PUZZLE_VENUE \<noteq> DOUBLE_TREE_VENUE"
  by (simp add: MONKEY_PUZZLE_VENUE_def DOUBLE_TREE_VENUE_def)

lemma anext_replace_venue: "anext (replace_venue n a) = Suc (anext a)"
  by (simp add: replace_venue_def add_venue_def anext_remove_venue split: option.splits)

lemma consistent_remove_venue: "consistent a \<Longrightarrow> consistent (remove_venue vid a)"
  by (auto simp add: consistent_def remove_venue_def distinct_map_filter)

lemma consistent_add_venue: "consistent a \<Longrightarrow> consistent (add_venue n a)"
  by (fastforce simp add: consistent_def add_venue_def)

lemma consistent_replace_venue: "consistent a \<Longrightarrow> consistent (replace_venue n a)"
  by (simp add: replace_venue_def consistent_add_venue consistent_remove_venue split: option.splits)

lemma anext_add_rooms: "anext (foldl (add_room vid) a ns) = anext a + length ns"
  by (induction ns arbitrary: a) (simp_all add: anext_add_room)

lemma foldl_events_map:
  "foldl (\<lambda>a ed. add_event (vid_of (venue_name_of ed)) a (field ed ''name'')) a eds =
   foldl (\<lambda>a e. add_event (vid_of (fst e)) a (snd e)) a
     (map (\<lambda>ed. (venue_name_of ed, field ed ''name'')) eds)"
  by (induction eds arbitrary: a) simp_all

lemma total_venues_loop:
  assumes "consistent a"
  shows "total (\<lambda>s. represents s a) (for_acc (populate_venue mem_server) venues_data [])
     (\<lambda>x s. x = [(MONKEY_PUZZLE_VENUE, PInt (int (anext a))),
                  (DOUBLE_TREE_VENUE, PInt (int (Suc (anext a))))] \<and>
            represents s (replace_venue DOUBLE_TREE_VENUE (replace_venue MONKEY_PUZZLE_VENUE a)))"
proof -
  let ?v1 = "venues_data ! 0" and ?v2 = "venues_data ! 1"
  have vd: "venues_data = [?v1, ?v2]" by (simp add: venues_data_def)
  have n1: "str_field ?v1 ''name'' = Inr MONKEY_PUZZLE_VENUE" "field ?v1 ''name'' = PStr MONKEY_PUZZLE_VENUE"
    by (simp_all add: venues_data_def str_field_def field_def)
  have n2: "str_field ?v2 ''name'' = Inr DOUBLE_TREE_VENUE" "field ?v2 ''name'' = PStr DOUBLE_TREE_VENUE"
    by (simp_all add: venues_data_def str_field_def field_def)
  let ?a1 = "replace_venue MONKEY_PUZZLE_VENUE a"
  have 1: "total (\<lambda>s. represents s a) (populate_venue mem_server ?v1 [])
     (\<lambda>x s. x = dict_set [] MONKEY_PUZZLE_VENUE (PInt (int (anext a))) \<and> represents s ?a1)"
    by (rule total_populate_venue[OF assms n1])
  have 2: "total (\<lambda>s. represents s ?a1) (populate_venue mem_server ?v2 cv)
     (\<lambda>x s. x = dict_set cv DOUBLE_TREE_VENUE (PInt (int (anext ?a1))) \<and>
        represents s (replace_venue DOUBLE_TREE_VENUE ?a1))" for cv
    by (rule total_populate_venue[OF consistent_replace_venue[OF assms] n2])
  show ?thesis
    apply (subst vd)
    apply (simp only: for_acc.simps)
    apply (rule total_bind[OF 1])
    apply (rule total_gen)
    apply (simp only: for_acc.simps)
    apply (rule total_bind[OF 2])
    apply (rule total_gen)
    apply (simp only: for_acc.simps)
    apply (rule total_ret)
    apply (simp add: anext_replace_venue venue_names_differ)
    done
qed

lemma rooms_data_entries:
  "rooms_data = [(MONKEY_PUZZLE_VENUE, the (map_of rooms_data MONKEY_PUZZLE_VENUE)),
                 (DOUBLE_TREE_VENUE, the (map_of rooms_data DOUBLE_TREE_VENUE))]"
  by (simp add: rooms_data_def venue_names_differ venue_names_differ[symmetric])

lemma rooms_data_ok:
  "\<forall>rd \<in> set (the (map_of rooms_data MONKEY_PUZZLE_VENUE)).
      is_dict rd \<and> dict_has (dict_items rd) ''roomName''"
  "\<forall>rd \<in> set (the (map_of rooms_data DOUBLE_TREE_VENUE)).
      is_dict rd \<and> dict_has (dict_items rd) ''roomName''"
  by (simp_all add: rooms_data_def dict_has_def venue_names_differ venue_names_differ[symmetric])

lemma room_names_the:
  "map (\<lambda>rd. field rd ''roomName'') (the (map_of rooms_data MONKEY_PUZZLE_VENUE)) =
     room_names MONKEY_PUZZLE_VENUE"
  "map (\<lambda>rd. field rd ''roomName'') (the (map_of rooms_data DOUBLE_TREE_VENUE)) =
     room_names DOUBLE_TREE_VENUE"
  by (simp_all add: room_names_def rooms_data_def venue_names_differ venue_names_differ[symmetric])

lemma total_rooms_phase:
  assumes "0 < anext a"
  shows "total (\<lambda>s. represents s a)
     (for_acc (populate_rooms_of_venue mem_server
        [(MONKEY_PUZZLE_VENUE, PInt (int m)), (DOUBLE_TREE_VENUE, PInt (int d))]) rooms_data [])
     (\<lambda>x s. represents s
        (foldl (add_room d) (foldl (add_room m) a (room_names MONKEY_PUZZLE_VENUE))
           (room_names DOUBLE_TREE_VENUE)))"
proof -
  let ?a1 = "foldl (add_room m) a (room_names MONKEY_PUZZLE_VENUE)"
  have 1: "total (\<lambda>s. represents s a)
     (for_acc (populate_room mem_server (PInt (int m)) MONKEY_PUZZLE_VENUE)
        (the (map_of rooms_data MONKEY_PUZZLE_VENUE)) [])
     (\<lambda>x s. represents s ?a1)"
    using total_rooms_loop[OF assms rooms_data_ok(1), of m MONKEY_PUZZLE_VENUE "[]"]
    by (simp only: room_names_the)
  have "0 < anext ?a1" using assms by (simp add: anext_add_rooms)
  then have 2: "total (\<lambda>s. represents s ?a1)
     (for_acc (populate_room mem_server (PInt (int d)) DOUBLE_TREE_VENUE)
        (the (map_of rooms_data DOUBLE_TREE_VENUE)) cr)
     (\<lambda>x s. represents s (foldl (add_room d) ?a1 (room_names DOUBLE_TREE_VENUE)))" for cr
    using total_rooms_loop[OF _ rooms_data_ok(2), of ?a1 d DOUBLE_TREE_VENUE cr]
    by (simp only: room_names_the)
  show ?thesis
    apply (subst rooms_data_entries)
    apply (simp only: for_acc.simps populate_rooms_of_venue_def fst_conv snd_conv)
    apply (simp add: venue_names_differ venue_names_differ[symmetric])
    apply (rule total_bind[OF 1])
    apply (simp only: for_acc.simps populate_rooms_of_venue_def fst_conv snd_conv)
    apply (simp add: venue_names_differ venue_names_differ[symmetric])
    apply (rule total_bind[OF 2])
    apply (simp only: for_acc.simps)
    apply (rule total_ret)
    apply simp
    done
qed

lemma total_events_phase:
  assumes "0 < anext a"
  shows "total (\<lambda>s. represents s a)
     (for_acc (populate_event mem_server
        [(MONKEY_PUZZLE_VENUE, PInt (int m)), (DOUBLE_TREE_VENUE, PInt (int d))] crs)
        (events_data r) [])
     (\<lambda>x s. represents s
        (foldl (\<lambda>a e. add_event (if fst e = MONKEY_PUZZLE_VENUE then m else d) a (snd e))
           a catalog_events))"
proof -
  let ?cv = "[(MONKEY_PUZZLE_VENUE, PInt (int m)), (DOUBLE_TREE_VENUE, PInt (int d))]"
  let ?vid = "\<lambda>vn. if vn = MONKEY_PUZZLE_VENUE then m else d"
  have h: "\<forall>ed \<in> set (events_data r). event_data_ok ed \<and>
           map_of ?cv (venue_name_of ed) = Some (PInt (int (?vid (venue_name_of ed))))"
    using events_data_ok[of r] events_data_venues[of r]
    by (auto simp add: venue_names_differ venue_names_differ[symmetric])
  show ?thesis
    using total_events_loop[OF assms h, of crs "[]"]
    by (simp only: foldl_events_map[of ?vid] events_data_catalog)
qed

lemma total_populate_data:
  assumes "consistent a" and "calculate_dynamic_dates today = Inr r"
  shows "total (\<lambda>s. represents s a) (populate_data mem_server today)
     (\<lambda>x s. represents s (aseed a))"
proof -
  let ?a2 = "replace_venue DOUBLE_TREE_VENUE (replace_venue MONKEY_PUZZLE_VENUE a)"
  let ?m = "anext a" and ?d = "Suc (anext a)"
  let ?a4 = "foldl (add_room ?d) (foldl (add_room ?m) ?a2 (room_names MONKEY_PUZZLE_VENUE))
           (room_names DOUBLE_TREE_VENUE)"
  have p2: "0 < anext ?a2" by (simp add: anext_replace_venue)
  have p4: "0 < anext ?a4" by (simp add: anext_add_rooms anext_replace_venue)
  show ?thesis
    unfolding populate_data_def
    apply (rule total_bind[OF total_check_server])
    apply (rule total_gen)
    apply (simp only: not_True_eq_False if_False simp_thms)
    apply (rule total_bind[OF total_authenticate])
    apply (rule total_gen)
    apply (simp only: not_True_eq_False if_False simp_thms assms(2) bind_lift_Inr)
    apply (rule total_bind[OF total_venues_loop[OF assms(1)]])
    apply (rule total_gen)
    apply hypsubst
    apply (rule total_bind[OF total_rooms_phase[OF p2]])
    apply (rule total_bind[OF total_events_phase[OF p4]])
    apply (rule total_ret)
    apply (simp add: aseed_def Let_def anext_replace_venue cong: if_cong)
    done
qed

subsection \<open>Runs in succession\<close>

lemma replace_venue_strip: "replace_venue n a = add_venue n (strip_venue n a)"
  by (simp add: replace_venue_def strip_venue_def)

lemma grown_explicit:
  "grown b =
     \<lparr>avenues = avenues b @ [(anext b, PStr MONKEY_PUZZLE_VENUE),
                              (Suc (anext b), PStr DOUBLE_TREE_VENUE)],
      arooms = arooms b @
        [(anext b + 2, anext b, PStr ''Main Area''),
         (anext b + 3, anext b, PStr ''Back Room''),
         (anext b + 4, Suc (anext b), PStr ''Chilworth Suite''),
         (anext b + 5, Suc (anext b), PStr ''Garden Suite''),
         (anext b + 6, Suc (anext b), PStr ''Adams Suite''),
         (anext b + 7, Suc (anext b), PStr ''Austen Suite''),
         (anext b + 8, Suc (anext b), PStr ''Hardy Suite''),
         (anext b + 9, Suc (anext b), PStr ''The Boardroom''),
         (anext b + 10, Suc (anext b), PStr ''Frome Suite'')],
      aevents = aevents b @
        [(anext b + 11, anext b, PStr ''Board Game Championship - Monkey Puzzle''),
         (anext b + 12, anext b, PStr ''Board Game Night - Monkey Puzzle''),
         (anext b + 13, anext b, PStr ''Clocktower (Beginner Friendly)''),
         (anext b + 14, anext b, PStr ''Clocktower (Intermediate+)''),
         (anext b + 15, Suc (anext b), PStr ''Clockshire '25''),
         (anext b + 16, Suc (anext b), PStr ''Clockshire '26'')],
      anext = anext b + 17\<rparr>"
  by (simp add: grown_def Let_def add_venue_def add_room_def add_event_def room_names_def
      rooms_data_def catalog_events_def field_def venue_names_differ venue_names_differ[symmetric])

lemma find_append_none:
  "\<forall>x \<in> set xs. \<not> P x \<Longrightarrow> find P (xs @ ys) = find P ys"
  by (induction xs) auto

lemma filter_all: "\<forall>x \<in> set xs. P x \<Longrightarrow> filter P xs = xs"
  by (induction xs) auto

lemma kept_grown:
  assumes "consistent b" and "clean b"
  shows "kept (grown b) = b\<lparr>anext := anext b + 17\<rparr>"
proof -
  have v: "\<forall>v \<in> set (avenues b). fst v \<noteq> anext b \<and> fst v \<noteq> Suc (anext b)"
    and r: "\<forall>r \<in> set (arooms b). fst (snd r) \<noteq> anext b \<and> fst (snd r) \<noteq> Suc (anext b)"
    and e: "\<forall>e \<in> set (aevents b). fst (snd e) \<noteq> anext b \<and> fst (snd e) \<noteq> Suc (anext b)"
    using assms(1) by (auto simp add: consistent_def)
  have fv: "filter (\<lambda>v. fst v \<noteq> anext b) (avenues b) = avenues b"
    "filter (\<lambda>v. fst v \<noteq> Suc (anext b)) (avenues b) = avenues b"
    using v by (simp_all add: filter_all)
  have fr: "filter (\<lambda>r. fst (snd r) \<noteq> anext b) (arooms b) = arooms b"
    "filter (\<lambda>r. fst (snd r) \<noteq> Suc (anext b)) (arooms b) = arooms b"
    using r by (simp_all add: filter_all)
  have fe: "filter (\<lambda>r. fst (snd r) \<noteq> anext b) (aevents b) = aevents b"
    "filter (\<lambda>r. fst (snd r) \<noteq> Suc (anext b)) (aevents b) = aevents b"
    using e by (simp_all add: filter_all)
  have n1: "\<forall>v \<in> set (avenues b). \<not> snd v = PStr MONKEY_PUZZLE_VENUE"
    and n2: "\<forall>v \<in> set (avenues b). \<not> snd v = PStr DOUBLE_TREE_VENUE"
    using assms(2) by (simp_all add: clean_def)
  have s1: "strip_venue MONKEY_PUZZLE_VENUE (grown b) =
     \<lparr>avenues = avenues b @ [(Suc (anext b), PStr DOUBLE_TREE_VENUE)],
      arooms = arooms b @
        [(anext b + 4, Suc (anext b), PStr ''Chilworth Suite''),
         (anext b + 5, Suc (anext b), PStr ''Garden Suite''),
         (anext b + 6, Suc (anext b), PStr ''Adams Suite''),
         (anext b + 7, Suc (anext b), PStr ''Austen Suite''),
         (anext b + 8, Suc (anext b), PStr ''Hardy Suite''),
         (anext b + 9, Suc (anext b), PStr ''The Boardroom''),
         (anext b + 10, Suc (anext b), PStr ''Frome Suite'')],
      aevents = aevents b @
        [(anext b + 15, Suc (anext b), PStr ''Clockshire '25''),
         (anext b + 16, Suc (anext b), PStr ''Clockshire '26'')],
      anext = anext b + 17\<rparr>"
    by (simp add: strip_venue_def grown_explicit find_append_none[OF n1] remove_venue_def fv fr fe)
  show ?thesis
    unfolding kept_def s1
    by (simp add: strip_venue_def find_append_none[OF n2] remove_venue_def fv fr fe
        venue_names_differ)
qed

lemma counts_grown:
  "length (avenues (grown b)) = length (avenues b) + 2"
  "length (arooms (grown b)) = length (arooms b) + 9"
  "length (aevents (grown b)) = length (aevents b) + 6"
  by (simp_all add: grown_explicit)

lemma grown_lists_anext:
  "avenues (b\<lparr>anext := k\<rparr>) = avenues b" "arooms (b\<lparr>anext := k\<rparr>) = arooms b"
  "aevents (b\<lparr>anext := k\<rparr>) = aevents b"
  by simp_all

lemma consistent_bump: "consistent b \<Longrightarrow> consistent (b\<lparr>anext := anext b + k\<rparr>)"
  by (fastforce simp add: consistent_def)

lemma clean_bump: "clean b \<Longrightarrow> clean (b\<lparr>anext := k\<rparr>)"
  by (simp add: clean_def)

lemma anext_strip_venue: "anext (strip_venue n a) = anext a"
  by (simp add: strip_venue_def anext_remove_venue split: option.splits)

lemma consistent_strip_venue: "consistent a \<Longrightarrow> consistent (strip_venue n a)"
  by (simp add: strip_venue_def consistent_remove_venue split: option.splits)

lemma length_le_one_eq:
  "length ys \<le> 1 \<Longrightarrow> x \<in> set ys \<Longrightarrow> y \<in> set ys \<Longrightarrow> x = y"
  by (cases ys) auto

lemma strip_venue_none_named:
  assumes "at_most_one n a"
  shows "\<forall>v \<in> set (avenues (strip_venue n a)). snd v \<noteq> PStr n"
proof (cases "find (\<lambda>v. snd v = PStr n) (avenues a)")
  case None
  then have "\<forall>x \<in> set (avenues a). snd x \<noteq> PStr n"
    by (auto simp add: find_None_iff)
  then show ?thesis
    by (simp add: strip_venue_def None)
next
  case (Some v)
  then have v: "v \<in> set (avenues a)" "snd v = PStr n"
    by (auto simp add: find_Some_iff)
  show ?thesis
  proof
    fix x assume x: "x \<in> set (avenues (strip_venue n a))"
    then have x': "x \<in> set (avenues a)" "fst x \<noteq> fst v"
      by (auto simp add: strip_venue_def Some remove_venue_def)
    show "snd x \<noteq> PStr n"
    proof
      assume "snd x = PStr n"
      with x' v have "x \<in> set (filter (\<lambda>v. snd v = PStr n) (avenues a))"
        "v \<in> set (filter (\<lambda>v. snd v = PStr n) (avenues a))" by auto
      with assms have "x = v" unfolding at_most_one_def by (rule length_le_one_eq)
      with x' show False by simp
    qed
  qed
qed

lemma strip_venue_subset:
  "set (avenues (strip_venue n a)) \<subseteq> set (avenues a)"
  by (auto simp add: strip_venue_def remove_venue_def split: option.splits)

lemma length_filter_filter:
  "length (filter P (filter Q xs)) \<le> length (filter P xs)"
  by (induction xs) auto

lemma at_most_one_strip:
  assumes "at_most_one n a"
  shows "at_most_one n (strip_venue n' a)"
proof (cases "find (\<lambda>v. snd v = PStr n') (avenues a)")
  case None
  with assms show ?thesis by (simp add: strip_venue_def)
next
  case (Some v)
  have "length (filter (\<lambda>v. snd v = PStr n) (filter (\<lambda>x. fst x \<noteq> fst v) (avenues a)))
      \<le> length (filter (\<lambda>v. snd v = PStr n) (avenues a))"
    by (rule length_filter_filter)
  with assms show ?thesis
    by (simp add: strip_venue_def Some remove_venue_def at_most_one_def)
qed

lemma kept_props:
  assumes "consistent a" and "at_most_one MONKEY_PUZZLE_VENUE a" and "at_most_one DOUBLE_TREE_VENUE a"
  shows "consistent (kept a)" and "clean (kept a)" and "anext (kept a) = anext a"
proof -
  let ?a1 = "strip_venue MONKEY_PUZZLE_VENUE a"
  show "consistent (kept a)" using assms(1) by (simp add: kept_def consistent_strip_venue)
  show "anext (kept a) = anext a" by (simp add: kept_def anext_strip_venue)
  have 1: "\<forall>v \<in> set (avenues ?a1). snd v \<noteq> PStr MONKEY_PUZZLE_VENUE"
    by (rule strip_venue_none_named[OF assms(2)])
  have 2: "\<forall>v \<in> set (avenues (kept a)). snd v \<noteq> PStr DOUBLE_TREE_VENUE"
    unfolding kept_def by (rule strip_venue_none_named[OF at_most_one_strip[OF assms(3)]])
  from 1 have "\<forall>v \<in> set (avenues (kept a)). snd v \<noteq> PStr MONKEY_PUZZLE_VENUE"
    unfolding kept_def using strip_venue_subset[of DOUBLE_TREE_VENUE ?a1] by blast
  with 2 show "clean (kept a)" by (simp add: clean_def)
qed

lemma find_append:
  "find P (xs @ ys) = (case find P xs of None \<Rightarrow> find P ys | Some x \<Rightarrow> Some x)"
  by (induction xs) auto

lemma strip_add_venue:
  assumes "consistent b" and "n \<noteq> n'"
  shows "strip_venue n (add_venue n' b) = add_venue n' (strip_venue n b)"
proof (cases "find (\<lambda>v. snd v = PStr n) (avenues b)")
  case None
  then show ?thesis
    using assms(2) by (simp add: strip_venue_def add_venue_def find_append)
next
  case (Some v)
  then have "v \<in> set (avenues b)" by (auto simp add: find_Some_iff)
  then have "fst v \<noteq> anext b" using assms(1) by (auto simp add: consistent_def)
  then show ?thesis
    using assms(2) Some
    by (simp add: strip_venue_def add_venue_def find_append remove_venue_def)
qed

lemma aseed_grown_kept:
  assumes "consistent a"
  shows "aseed a = grown (kept a)"
proof -
  let ?b1 = "strip_venue MONKEY_PUZZLE_VENUE a"
  have "replace_venue DOUBLE_TREE_VENUE (replace_venue MONKEY_PUZZLE_VENUE a) =
      add_venue DOUBLE_TREE_VENUE (add_venue MONKEY_PUZZLE_VENUE (kept a))"
    using strip_add_venue[OF consistent_strip_venue[OF assms], of DOUBLE_TREE_VENUE MONKEY_PUZZLE_VENUE
        MONKEY_PUZZLE_VENUE]
    by (simp add: replace_venue_strip kept_def venue_names_differ[symmetric])
  then show ?thesis
    by (simp add: aseed_def grown_def Let_def anext_replace_venue kept_def anext_strip_venue
        cong: if_cong)
qed

subsection \<open>Idempotency\<close>

lemma venue_named_rec: "venue_named n (venue_rec v) = (snd v = PStr n)"
  by (simp add: venue_named_def venue_rec_def)

lemma at_most_one_concrete:
  assumes "represents s a"
  shows "at_most_one n a = (length (filter (venue_named n) (st_venues s)) \<le> 1)"
  using assms by (simp add: at_most_one_def represents_def filter_map comp_def venue_named_rec)

lemma consistent_extend:
  assumes "consistent b"
    and "distinct (map fst vs)" and "distinct (map fst rs)" and "distinct (map fst es)"
    and "\<forall>v \<in> set vs. anext b \<le> fst v \<and> fst v < k"
    and "\<forall>r \<in> set rs. anext b \<le> fst r \<and> fst r < k \<and> fst (snd r) < k"
    and "\<forall>e \<in> set es. anext b \<le> fst e \<and> fst e < k \<and> fst (snd e) < k"
    and "anext b \<le> k"
  shows "consistent \<lparr>avenues = avenues b @ vs, arooms = arooms b @ rs, aevents = aevents b @ es,
            anext = k\<rparr>"
proof -
  have p: "0 < anext b" and dv: "distinct (map fst (avenues b))"
    and dr: "distinct (map fst (arooms b))" and de: "distinct (map fst (aevents b))"
    and v: "\<forall>v \<in> set (avenues b). 0 < fst v \<and> fst v < anext b"
    and r: "\<forall>r \<in> set (arooms b). 0 < fst r \<and> fst r < anext b \<and> fst (snd r) < anext b"
    and e: "\<forall>e \<in> set (aevents b). 0 < fst e \<and> fst e < anext b \<and> fst (snd e) < anext b"
    using assms(1) by (simp_all add: consistent_def)
  have 1: "0 < k" using p assms(8) by simp
  have 2: "distinct (map fst (avenues b @ vs))"
    using dv assms(2) v assms(5) by fastforce
  have 3: "distinct (map fst (arooms b @ rs))"
    using dr assms(3) r assms(6) by fastforce
  have 4: "distinct (map fst (aevents b @ es))"
    using de assms(4) e assms(7) by fastforce
  have 5: "\<forall>v \<in> set (avenues b @ vs). 0 < fst v \<and> fst v < k"
    using v assms(5,8) p by fastforce
  have 6: "\<forall>r \<in> set (arooms b @ rs). 0 < fst r \<and> fst r < k \<and> fst (snd r) < k"
    using r assms(6,8) p by fastforce
  have 7: "\<forall>e \<in> set (aevents b @ es). 0 < fst e \<and> fst e < k \<and> fst (snd e) < k"
    using e assms(7,8) p by fastforce
  show ?thesis unfolding consistent_def using 1 2 3 4 5 6 7 by simp
qed

lemma consistent_grown:
  assumes "consistent b"
  shows "consistent (grown b)"
  unfolding grown_explicit by (rule consistent_extend[OF assms]) simp_all

lemma counts_represents_grown:
  assumes "represents s (grown b)"
  shows "counts s = (length (avenues b) + 2, length (arooms b) + 9, length (aevents b) + 6)"
  using assms by (simp add: counts_def represents_def counts_grown)

lemma filter_none: "\<forall>x \<in> set xs. \<not> P x \<Longrightarrow> filter P xs = []"
  by (induction xs) auto

lemma field_room_rec: "field (room_rec r) ''venueId'' = PInt (int (fst (snd r)))"
  "field (room_rec r) ''roomName'' = snd (snd r)"
  by (simp_all add: field_def room_rec_def)

lemma field_event_rec: "field (event_rec r) ''venueId'' = PInt (int (fst (snd r)))"
  "field (event_rec r) ''eventName'' = snd (snd r)"
  by (simp_all add: field_def event_rec_def)

lemma field_venue_rec: "field (venue_rec v) ''venueId'' = PInt (int (fst v))"
  by (simp add: field_def venue_rec_def)

lemma room_names_values:
  "room_names MONKEY_PUZZLE_VENUE = [PStr ''Main Area'', PStr ''Back Room'']"
  "room_names DOUBLE_TREE_VENUE =
     [PStr ''Chilworth Suite'', PStr ''Garden Suite'', PStr ''Adams Suite'', PStr ''Austen Suite'',
      PStr ''Hardy Suite'', PStr ''The Boardroom'', PStr ''Frome Suite'']"
  by (simp_all add: room_names_def rooms_data_def field_def venue_names_differ
      venue_names_differ[symmetric])

lemma catalog_events_values:
  "map snd (filter (\<lambda>e. fst e = MONKEY_PUZZLE_VENUE) catalog_events) =
     [PStr ''Board Game Championship - Monkey Puzzle'', PStr ''Board Game Night - Monkey Puzzle'',
      PStr ''Clocktower (Beginner Friendly)'', PStr ''Clocktower (Intermediate+)'']"
  "map snd (filter (\<lambda>e. fst e = DOUBLE_TREE_VENUE) catalog_events) =
     [PStr ''Clockshire '25'', PStr ''Clockshire '26'']"
  by (simp_all add: catalog_events_def venue_names_differ venue_names_differ[symmetric])

lemma seeded_venue_abstract:
  assumes "represents s a"
    and "filter (\<lambda>v. snd v = PStr n) (avenues a) = [(vid, PStr n)]"
    and "map (\<lambda>r. snd (snd r)) (filter (\<lambda>r. fst (snd r) = vid) (arooms a)) = room_names n"
    and "map (\<lambda>e. snd (snd e)) (filter (\<lambda>e. fst (snd e) = vid) (aevents a)) =
         map snd (filter (\<lambda>e. fst e = n) catalog_events)"
  shows "seeded_venue n s"
proof -
  have vs: "st_venues s = map venue_rec (avenues a)"
    and rs: "st_rooms s = map room_rec (arooms a)"
    and es: "st_events s = map event_rec (aevents a)"
    using assms(1) by (simp_all add: represents_def)
  have 1: "filter (venue_named n) (st_venues s) = [venue_rec (vid, PStr n)]"
    unfolding vs filter_map comp_def venue_named_rec assms(2) by simp
  have 2: "map (\<lambda>r. field r ''roomName'')
             (filter (\<lambda>r. field r ''venueId'' = PInt (int vid)) (st_rooms s)) = room_names n"
    unfolding rs filter_map comp_def field_room_rec map_map
    using assms(3) by simp
  have 3: "map (\<lambda>e. field e ''eventName'')
             (filter (\<lambda>e. field e ''venueId'' = PInt (int vid)) (st_events s)) =
           map snd (filter (\<lambda>e. fst e = n) catalog_events)"
    unfolding es filter_map comp_def field_event_rec map_map
    using assms(4) by simp
  show ?thesis
    unfolding seeded_venue_def 1 using 2 3 by (simp add: field_venue_rec)
qed

lemma catalog_seeded_grown:
  assumes "represents s (grown b)" and "consistent b" and "clean b"
  shows "catalog_seeded s"
proof -
  have n: "\<forall>v \<in> set (avenues b). \<not> snd v = PStr MONKEY_PUZZLE_VENUE"
    "\<forall>v \<in> set (avenues b). \<not> snd v = PStr DOUBLE_TREE_VENUE"
    using assms(3) by (simp_all add: clean_def)
  have r: "\<forall>r \<in> set (arooms b). \<not> fst (snd r) = anext b"
    "\<forall>r \<in> set (arooms b). \<not> fst (snd r) = Suc (anext b)"
    and e: "\<forall>e \<in> set (aevents b). \<not> fst (snd e) = anext b"
    "\<forall>e \<in> set (aevents b). \<not> fst (snd e) = Suc (anext b)"
    using assms(2) by (auto simp add: consistent_def)
  have v1: "filter (\<lambda>v. snd v = PStr MONKEY_PUZZLE_VENUE) (avenues (grown b)) =
            [(anext b, PStr MONKEY_PUZZLE_VENUE)]"
    by (simp add: grown_explicit filter_none[OF n(1)] venue_names_differ[symmetric])
  have v2: "filter (\<lambda>v. snd v = PStr DOUBLE_TREE_VENUE) (avenues (grown b)) =
            [(Suc (anext b), PStr DOUBLE_TREE_VENUE)]"
    by (simp add: grown_explicit filter_none[OF n(2)] venue_names_differ)
  have r1: "map (\<lambda>r. snd (snd r)) (filter (\<lambda>r. fst (snd r) = anext b) (arooms (grown b))) =
            room_names MONKEY_PUZZLE_VENUE"
    by (simp add: grown_explicit filter_none[OF r(1)] room_names_values)
  have r2: "map (\<lambda>r. snd (snd r)) (filter (\<lambda>r. fst (snd r) = Suc (anext b)) (arooms (grown b))) =
            room_names DOUBLE_TREE_VENUE"
    by (simp add: grown_explicit filter_none[OF r(2)] room_names_values)
  have e1: "map (\<lambda>e. snd (snd e)) (filter (\<lambda>e. fst (snd e) = anext b) (aevents (grown b))) =
            map snd (filter (\<lambda>e. fst e = MONKEY_PUZZLE_VENUE) catalog_events)"
    by (simp add: grown_explicit filter_none[OF e(1)] catalog_events_values)
  have e2: "map (\<lambda>e. snd (snd e)) (filter (\<lambda>e. fst (snd e) = Suc (anext b)) (aevents (grown b))) =
            map snd (filter (\<lambda>e. fst e = DOUBLE_TREE_VENUE) catalog_events)"
    by (simp add: grown_explicit filter_none[OF e(2)] catalog_events_values)
  show ?thesis
    unfolding catalog_seeded_def
    using seeded_venue_abstract[OF assms(1) v1 r1 e1] seeded_venue_abstract[OF assms(1) v2 r2 e2]
    by simp
qed

lemma seed_represents:
  assumes "represents s a" and "consistent a" and "calculate_dynamic_dates today = Inr r"
  shows "represents (seed today s) (aseed a) \<and>
         (\<exists>x. fst (populate_data mem_server today \<lparr>srv = s, calls = []\<rparr>) = Inr x)"
proof -
  let ?w = "\<lparr>srv = s, calls = []\<rparr> :: (http_request, store) world"
  have "represents (srv ?w) a" using assms(1) by simp
  with total_populate_data[OF assms(2,3), unfolded total_def, rule_format, of ?w]
  obtain x w' where "populate_data mem_server today ?w = (Inr x, w')"
    "represents (srv w') (aseed a)"
    by blast
  then show ?thesis by (cases x) (simp add: seed_def)
qed

lemma seed_iterated:
  assumes "represents s a" and "consistent a" and "at_most_one MONKEY_PUZZLE_VENUE a"
    and "at_most_one DOUBLE_TREE_VENUE a" and "calculate_dynamic_dates today = Inr r"
  shows "represents ((seed today ^^ Suc n) s) (grown ((kept a)\<lparr>anext := anext a + 17 * n\<rparr>)) \<and>
         (\<exists>x. fst (populate_data mem_server today \<lparr>srv = (seed today ^^ n) s, calls = []\<rparr>) = Inr x)"
proof (induction n)
  case 0
  have "(kept a)\<lparr>anext := anext a + 17 * 0\<rparr> = kept a"
    using kept_props(3)[OF assms(2,3,4)] by simp
  then show ?case
    using seed_represents[OF assms(1,2,5)] by (simp add: aseed_grown_kept[OF assms(2)])
next
  case (Suc n)
  let ?b = "(kept a)\<lparr>anext := anext a + 17 * n\<rparr>"
  have b: "?b = (kept a)\<lparr>anext := anext (kept a) + 17 * n\<rparr>"
    using kept_props(3)[OF assms(2,3,4)] by simp
  have cb: "consistent ?b" unfolding b by (rule consistent_bump[OF kept_props(1)[OF assms(2,3,4)]])
  have clb: "clean ?b" by (rule clean_bump[OF kept_props(2)[OF assms(2,3,4)]])
  from Suc.IH have rep: "represents ((seed today ^^ Suc n) s) (grown ?b)" by simp
  have "aseed (grown ?b) = grown (kept (grown ?b))"
    by (rule aseed_grown_kept[OF consistent_grown[OF cb]])
  also have "kept (grown ?b) = (kept a)\<lparr>anext := anext a + 17 * Suc n\<rparr>"
    by (simp add: kept_grown[OF cb clb])
  finally have "aseed (grown ?b) = grown ((kept a)\<lparr>anext := anext a + 17 * Suc n\<rparr>)" .
  with seed_represents[OF rep consistent_grown[OF cb] assms(5)] show ?case
    by simp
qed

lemma well_formed_used_store: "well_formed used_store"
proof -
  let ?a = "\<lparr>avenues = [(1, PStr ''The Old Library''), (2, PStr MONKEY_PUZZLE_VENUE)],
             arooms = [(3, 2, PStr ''Snug''), (4, 1, PStr ''Hall'')],
             aevents = [(5, 2, PStr ''Old night''), (6, 1, PStr ''Book club'')],
             anext = 7\<rparr>"
  have "represents used_store ?a"
    by (simp add: represents_def used_store_def venue_rec_def room_rec_def event_rec_def)
  moreover have "consistent ?a" by (simp add: consistent_def)
  ultimately show ?thesis unfolding well_formed_def by blast
qed

text \<open>
  C1, as amended. On the reference datastore, from a consistent datastore in which at most
  one venue carries the name of each venue of the catalog, and on a day for which the
  dynamic dates are computed, every run of \<open>populate_data\<close> returns normally, and after any
  number of runs in succession (one or more) the numbers of venues, rooms and events are
  those after one run, and the catalog is seeded: exactly one venue of each catalog name
  exists, and the rooms and events that refer to it are those of the catalog, once each.
\<close>

theorem seed_idempotent_on_unique_names:
  assumes "well_formed s"
    and "length (filter (venue_named MONKEY_PUZZLE_VENUE) (st_venues s)) \<le> 1"
    and "length (filter (venue_named DOUBLE_TREE_VENUE) (st_venues s)) \<le> 1"
    and "calculate_dynamic_dates today = Inr r"
  shows "counts ((seed today ^^ Suc n) s) = counts (seed today s) \<and>
         catalog_seeded ((seed today ^^ Suc n) s) \<and>
         (\<exists>x. fst (populate_data mem_server today \<lparr>srv = (seed today ^^ n) s, calls = []\<rparr>) = Inr x)"
proof -
  from assms(1) obtain a where a: "represents s a" "consistent a" by (auto simp add: well_formed_def)
  have u: "at_most_one MONKEY_PUZZLE_VENUE a" "at_most_one DOUBLE_TREE_VENUE a"
    using assms(2,3) by (simp_all add: at_most_one_concrete[OF a(1)])
  note r = assms(4)
  let ?b = "\<lambda>n. (kept a)\<lparr>anext := anext a + 17 * n\<rparr>"
  have b: "?b k = (kept a)\<lparr>anext := anext (kept a) + 17 * k\<rparr>" for k
    using kept_props(3)[OF a(2) u] by simp
  have cb: "consistent (?b k)" for k unfolding b by (rule consistent_bump[OF kept_props(1)[OF a(2) u]])
  have clb: "clean (?b k)" for k by (rule clean_bump[OF kept_props(2)[OF a(2) u]])
  note n = seed_iterated[OF a u r, of n] and z = seed_iterated[OF a u r, of 0]
  have "counts ((seed today ^^ Suc n) s) = counts ((seed today ^^ Suc 0) s)"
    unfolding counts_represents_grown[OF conjunct1[OF n]]
      counts_represents_grown[OF conjunct1[OF z]]
    by simp
  moreover have "catalog_seeded ((seed today ^^ Suc n) s)"
    using conjunct1[OF n] cb clb by (rule catalog_seeded_grown)
  ultimately show ?thesis using conjunct2[OF n] by simp
qed

theorem seed_idempotent_on_unique_names_witness:
  "well_formed used_store \<and>
   length (filter (venue_named MONKEY_PUZZLE_VENUE) (st_venues used_store)) \<le> 1 \<and>
   length (filter (venue_named DOUBLE_TREE_VENUE) (st_venues used_store)) \<le> 1 \<and>
   (\<exists>r. calculate_dynamic_dates \<lparr>year = 2026, month = 11, day = 4\<rparr> = Inr r) \<and>
   counts ((seed \<lparr>year = 2026, month = 11, day = 4\<rparr> ^^ Suc 2) used_store) =
     counts (seed \<lparr>year = 2026, month = 11, day = 4\<rparr> used_store) \<and>
   catalog_seeded ((seed \<lparr>year = 2026, month = 11, day = 4\<rparr> ^^ Suc 2) used_store)"
proof -
  have 1: "length (filter (venue_named MONKEY_PUZZLE_VENUE) (st_venues used_store)) \<le> 1"
    by (simp add: used_store_def venue_named_def MONKEY_PUZZLE_VENUE_def)
  have 2: "length (filter (venue_named DOUBLE_TREE_VENUE) (st_venues used_store)) \<le> 1"
    by (simp add: used_store_def venue_named_def MONKEY_PUZZLE_VENUE_def DOUBLE_TREE_VENUE_def)
  note t = seed_idempotent_on_unique_names[OF well_formed_used_store 1 2
      calculate_dynamic_dates_2026_11_04, of 2]
  from t have 3: "counts ((seed \<lparr>year = 2026, month = 11, day = 4\<rparr> ^^ Suc 2) used_store) =
     counts (seed \<lparr>year = 2026, month = 11, day = 4\<rparr> used_store)" by (rule conjunct1)
  from t have 4: "catalog_seeded ((seed \<lparr>year = 2026, month = 11, day = 4\<rparr> ^^ Suc 2) used_store)"
    by blast
  have 5: "\<exists>r. calculate_dynamic_dates \<lparr>year = 2026, month = 11, day = 4\<rparr> = Inr r"
    using calculate_dynamic_dates_2026_11_04 by (rule exI)
  from well_formed_used_store 1 2 5 3 4 show ?thesis by (intro conjI)
qed

text \<open>
  Without the condition on the names the counts change from run to run: with two venues
  named as the first venue of the catalog, a run replaces only the first of them, so that
  two venues of the name exist after it, and the second run leaves the venue created by
  the first run in place with its rooms and events and creates them once more.
\<close>

theorem seed_twice_duplicate_names_counterexample:
  "counts (seed \<lparr>year = 2026, month = 11, day = 4\<rparr> duplicate_store) = (3, 10, 6) \<and>
   counts (seed \<lparr>year = 2026, month = 11, day = 4\<rparr>
            (seed \<lparr>year = 2026, month = 11, day = 4\<rparr> duplicate_store)) = (3, 11, 10) \<and>
   length (filter (venue_named MONKEY_PUZZLE_VENUE)
            (st_venues (seed \<lparr>year = 2026, month = 11, day = 4\<rparr> duplicate_store))) = 2"
  by code_simp

section \<open>The cleanup orchestrator deletes what it lists\<close>

subsection \<open>The requests of a run that returns\<close>

lemma delete_one_listed:
  assumes "delete_one send t e n w = (Inr m, w')"
  shows "calls w' = calls w @ map (DELETE (entity_url t)) (entity_ids (t @ ''Id'') [e])"
proof (cases "dict_get e (t @ ''Id'') PNone")
  case (Inl x)
  with assms show ?thesis by (simp add: delete_one_def py_bind_def lift_def)
next
  case (Inr i)
  show ?thesis
  proof (cases "truthy i")
    case True
    with Inr assms have "w' = snd (delete_entity send t i w)"
      by (auto simp add: delete_one_def py_bind_def lift_def ret_def split: prod.splits sum.splits)
    then show ?thesis using Inr True by (simp add: delete_entity_calls)
  next
    case False
    with Inr assms show ?thesis by (simp add: delete_one_def py_bind_def lift_def ret_def)
  qed
qed

lemma delete_loop_listed:
  "for_acc (delete_one send t) es n w = (Inr m, w') \<Longrightarrow>
   calls w' = calls w @ map (DELETE (entity_url t)) (entity_ids (t @ ''Id'') es)"
proof (induction es arbitrary: n w)
  case Nil
  then show ?case by (simp add: ret_def)
next
  case (Cons e es)
  from Cons.prems obtain n1 w1 where
    1: "delete_one send t e n w = (Inr n1, w1)" and
    2: "for_acc (delete_one send t) es n1 w1 = (Inr m, w')"
    by (auto simp add: py_bind_def split: prod.splits sum.splits)
  from delete_one_listed[OF 1] Cons.IH[OF 2] show ?case by simp
qed

lemma delete_all_entities_listed:
  assumes "delete_all_entities send t w = (Inr m, w')"
  shows "\<exists>entities. fst (get_all_entities send t w) = Inr entities \<and>
     calls w' = calls w @ GET (api_base_url @ ''/'' @ t @ ''s'') #
       map (DELETE (entity_url t)) (entity_ids (t @ ''Id'') (listed entities))"
proof -
  from assms obtain entities w1 where
    g: "get_all_entities send t w = (Inr entities, w1)" and
    r: "(if \<not> truthy entities then ret 0 else
          py_bind (lift (py_iter entities)) (\<lambda>es. for_acc (delete_one send t) es 0)) w1 = (Inr m, w')"
    unfolding delete_all_entities_def by (blast dest: py_bind_Inr)
  have c1: "calls w1 = calls w @ [GET (api_base_url @ ''/'' @ t @ ''s'')]"
    using get_all_calls[of "t @ ''s''" send w] g by (simp add: get_all_entities_def)
  have "calls w' = calls w1 @ map (DELETE (entity_url t)) (entity_ids (t @ ''Id'') (listed entities))"
  proof (cases "truthy entities")
    case False
    with r show ?thesis by (simp add: ret_def listed_def)
  next
    case True
    with r obtain es where es: "py_iter entities = Inr es"
      and l: "for_acc (delete_one send t) es 0 w1 = (Inr m, w')"
      by (auto simp add: py_bind_def lift_def split: sum.splits)
    from delete_loop_listed[OF l] show ?thesis using True es by (simp add: listed_def)
  qed
  with g c1 show ?thesis by simp
qed

lemma cleanup_all_data_listed:
  assumes "fst (cleanup_all_data send w) = Inr n"
  shows "let w0 = snd (cleaner_check_server send w);
             w1 = snd (delete_all_entities send ''event'' w0);
             w2 = snd (delete_all_entities send ''room'' w1)
         in \<exists>events rooms venues.
           fst (get_all_entities send ''event'' w0) = Inr events \<and>
           fst (get_all_entities send ''room'' w1) = Inr rooms \<and>
           fst (get_all_entities send ''venue'' w2) = Inr venues \<and>
           calls (snd (cleanup_all_data send w)) =
             calls w @ [GET (api_base_url @ ''/venues''), GET (api_base_url @ ''/events'')] @
             map (DELETE (entity_url ''event'')) (entity_ids ''eventId'' (listed events)) @
             [GET (api_base_url @ ''/rooms'')] @
             map (DELETE (entity_url ''room'')) (entity_ids ''roomId'' (listed rooms)) @
             [GET (api_base_url @ ''/venues'')] @
             map (DELETE (entity_url ''venue'')) (entity_ids ''venueId'' (listed venues))"
proof -
  obtain w' where run: "cleanup_all_data send w = (Inr n, w')"
    using assms by (cases "cleanup_all_data send w") simp
  from run obtain up w0 where c: "cleaner_check_server send w = (Inr up, w0)"
    and r0: "(if \<not> up then sys_exit 1 else
     py_bind (delete_all_entities send ''event'') (\<lambda>n1.
     py_bind (delete_all_entities send ''room'') (\<lambda>n2.
     py_bind (delete_all_entities send ''venue'') (\<lambda>n3.
     ret (0 + n1 + n2 + n3))))) w0 = (Inr n, w')"
    unfolding cleanup_all_data_def by (blast dest: py_bind_Inr)
  from r0 have up: "up" by (auto simp add: sys_exit_def split: if_splits)
  with r0 obtain n1 w1 where d1: "delete_all_entities send ''event'' w0 = (Inr n1, w1)"
    and r1: "py_bind (delete_all_entities send ''room'') (\<lambda>n2.
     py_bind (delete_all_entities send ''venue'') (\<lambda>n3.
     ret (0 + n1 + n2 + n3))) w1 = (Inr n, w')"
    by (auto dest: py_bind_Inr)
  from r1 obtain n2 w2 where d2: "delete_all_entities send ''room'' w1 = (Inr n2, w2)"
    and r2: "py_bind (delete_all_entities send ''venue'') (\<lambda>n3.
     ret (0 + n1 + n2 + n3)) w2 = (Inr n, w')"
    by (blast dest: py_bind_Inr)
  from r2 obtain n3 where d3: "delete_all_entities send ''venue'' w2 = (Inr n3, w')"
    by (auto simp add: py_bind_def ret_def split: prod.splits sum.splits)
  have c0: "calls w0 = calls w @ [GET (api_base_url @ ''/venues'')]"
    using cleaner_check_server_calls[of send w] c by simp
  from delete_all_entities_listed[OF d1] obtain events where
    e: "fst (get_all_entities send ''event'' w0) = Inr events"
       "calls w1 = calls w0 @ GET (api_base_url @ ''/events'') #
          map (DELETE (entity_url ''event'')) (entity_ids ''eventId'' (listed events))"
    by auto
  from delete_all_entities_listed[OF d2] obtain rooms where
    r: "fst (get_all_entities send ''room'' w1) = Inr rooms"
       "calls w2 = calls w1 @ GET (api_base_url @ ''/rooms'') #
          map (DELETE (entity_url ''room'')) (entity_ids ''roomId'' (listed rooms))"
    by auto
  from delete_all_entities_listed[OF d3] obtain venues where
    v: "fst (get_all_entities send ''venue'' w2) = Inr venues"
       "calls w' = calls w2 @ GET (api_base_url @ ''/venues'') #
          map (DELETE (entity_url ''venue'')) (entity_ids ''venueId'' (listed venues))"
    by auto
  have "calls w' = calls w @ [GET (api_base_url @ ''/venues''), GET (api_base_url @ ''/events'')] @
             map (DELETE (entity_url ''event'')) (entity_ids ''eventId'' (listed events)) @
             [GET (api_base_url @ ''/rooms'')] @
             map (DELETE (entity_url ''room'')) (entity_ids ''roomId'' (listed rooms)) @
             [GET (api_base_url @ ''/venues'')] @
             map (DELETE (entity_url ''venue'')) (entity_ids ''venueId'' (listed venues))"
    by (simp add: c0 e(2) r(2) v(2))
  with e(1) r(1) v(1) show ?thesis
    unfolding Let_def by (simp add: c d1 d2 run) 
qed

subsection \<open>A run on the reference datastore\<close>

lemma total_get_all_entities_event:
  "total (\<lambda>s. represents s a) (get_all_entities mem_server ''event'')
     (\<lambda>x s. x = PList (map event_rec (aevents a)) \<and> represents s a)"
  using total_get_all_events_repr[of a]
  by (simp add: get_all_entities_def get_all_events_def)

lemma total_get_all_entities_room:
  "total (\<lambda>s. represents s a) (get_all_entities mem_server ''room'')
     (\<lambda>x s. x = PList (map room_rec (arooms a)) \<and> represents s a)"
  using total_get_all_rooms_repr[of a]
  by (simp add: get_all_entities_def get_all_rooms_def)

lemma total_get_all_entities_venue:
  "total (\<lambda>s. represents s a) (get_all_entities mem_server ''venue'')
     (\<lambda>x s. x = PList (map venue_rec (avenues a)) \<and> represents s a)"
  using total_get_all_venues_repr[of a]
  by (simp add: get_all_entities_def get_all_venues_def)

lemma total_delete_one_event:
  assumes "0 < fst e"
  shows "total (\<lambda>s. represents s a) (delete_one mem_server ''event'' (event_rec e) n)
     (\<lambda>_ s. represents s (a\<lparr>aevents := filter (\<lambda>x. fst x \<noteq> fst e) (aevents a)\<rparr>))"
proof -
  have "total (\<lambda>s. represents s a)
     (py_bind (delete_entity mem_server ''event'' (PInt (int (fst e))))
        (\<lambda>deleted. ret (if deleted then n + 1 else n)))
     (\<lambda>_ s. represents s (a\<lparr>aevents := filter (\<lambda>x. fst x \<noteq> fst e) (aevents a)\<rparr>))"
    apply (rule total_pre)
    apply (rule total_bind[OF total_delete_entity])
    apply (rule total_ret)
    apply (simp add: delete_event_represents)
    done
  then show ?thesis
    using assms by (simp add: delete_one_def event_rec_def bind_lift_Inr)
qed

lemma total_delete_one_room:
  assumes "0 < fst e"
  shows "total (\<lambda>s. represents s a) (delete_one mem_server ''room'' (room_rec e) n)
     (\<lambda>_ s. represents s (a\<lparr>arooms := filter (\<lambda>x. fst x \<noteq> fst e) (arooms a)\<rparr>))"
proof -
  have "total (\<lambda>s. represents s a)
     (py_bind (delete_entity mem_server ''room'' (PInt (int (fst e))))
        (\<lambda>deleted. ret (if deleted then n + 1 else n)))
     (\<lambda>_ s. represents s (a\<lparr>arooms := filter (\<lambda>x. fst x \<noteq> fst e) (arooms a)\<rparr>))"
    apply (rule total_pre)
    apply (rule total_bind[OF total_delete_entity])
    apply (rule total_ret)
    apply (simp add: delete_room_represents)
    done
  then show ?thesis
    using assms by (simp add: delete_one_def room_rec_def bind_lift_Inr)
qed

lemma total_delete_one_venue:
  assumes "0 < fst e"
  shows "total (\<lambda>s. represents s a) (delete_one mem_server ''venue'' (venue_rec e) n)
     (\<lambda>_ s. represents s (a\<lparr>avenues := filter (\<lambda>x. fst x \<noteq> fst e) (avenues a)\<rparr>))"
proof -
  have "total (\<lambda>s. represents s a)
     (py_bind (delete_entity mem_server ''venue'' (PInt (int (fst e))))
        (\<lambda>deleted. ret (if deleted then n + 1 else n)))
     (\<lambda>_ s. represents s (a\<lparr>avenues := filter (\<lambda>x. fst x \<noteq> fst e) (avenues a)\<rparr>))"
    apply (rule total_pre)
    apply (rule total_bind[OF total_delete_entity])
    apply (rule total_ret)
    apply (simp add: delete_venue_represents)
    done
  then show ?thesis
    using assms by (simp add: delete_one_def venue_rec_def bind_lift_Inr)
qed

lemma total_delete_all_events_loop:
  assumes "\<forall>e \<in> set es. 0 < fst e"
  shows "total (\<lambda>s. represents s a)
     (for_acc (delete_one mem_server ''event'') (map event_rec es) n)
     (\<lambda>_ s. represents s
        (a\<lparr>aevents := filter (\<lambda>x. fst x \<notin> fst ` set es) (aevents a)\<rparr>))"
  using assms
proof (induction es arbitrary: a n)
  case Nil
  show ?case by (simp add: total_ret)
next
  case (Cons e es)
  let ?a1 = "a\<lparr>aevents := filter (\<lambda>x. fst x \<noteq> fst e) (aevents a)\<rparr>"
  have 1: "total (\<lambda>s. represents s a) (delete_one mem_server ''event'' (event_rec e) n)
     (\<lambda>_ s. represents s ?a1)"
    using Cons.prems by (intro total_delete_one_event) simp
  have 2: "total (\<lambda>s. represents s ?a1)
     (for_acc (delete_one mem_server ''event'') (map event_rec es) n')
     (\<lambda>_ s. represents s (?a1\<lparr>aevents := filter (\<lambda>x. fst x \<notin> fst ` set es) (aevents ?a1)\<rparr>))"
    for n'
    using Cons.prems by (intro Cons.IH) simp
  have eq: "?a1\<lparr>aevents := filter (\<lambda>x. fst x \<notin> fst ` set es) (aevents ?a1)\<rparr> =
      a\<lparr>aevents := filter (\<lambda>x. fst x \<notin> fst ` set (e # es)) (aevents a)\<rparr>"
    by (auto intro!: filter_cong)
  show ?case
    using total_bind[OF 1, of "for_acc (delete_one mem_server ''event'') (map event_rec es)", OF 2]
    by (simp add: eq)
qed

lemma total_delete_all_rooms_loop:
  assumes "\<forall>e \<in> set es. 0 < fst e"
  shows "total (\<lambda>s. represents s a)
     (for_acc (delete_one mem_server ''room'') (map room_rec es) n)
     (\<lambda>_ s. represents s
        (a\<lparr>arooms := filter (\<lambda>x. fst x \<notin> fst ` set es) (arooms a)\<rparr>))"
  using assms
proof (induction es arbitrary: a n)
  case Nil
  show ?case by (simp add: total_ret)
next
  case (Cons e es)
  let ?a1 = "a\<lparr>arooms := filter (\<lambda>x. fst x \<noteq> fst e) (arooms a)\<rparr>"
  have 1: "total (\<lambda>s. represents s a) (delete_one mem_server ''room'' (room_rec e) n)
     (\<lambda>_ s. represents s ?a1)"
    using Cons.prems by (intro total_delete_one_room) simp
  have 2: "total (\<lambda>s. represents s ?a1)
     (for_acc (delete_one mem_server ''room'') (map room_rec es) n')
     (\<lambda>_ s. represents s (?a1\<lparr>arooms := filter (\<lambda>x. fst x \<notin> fst ` set es) (arooms ?a1)\<rparr>))"
    for n'
    using Cons.prems by (intro Cons.IH) simp
  have eq: "?a1\<lparr>arooms := filter (\<lambda>x. fst x \<notin> fst ` set es) (arooms ?a1)\<rparr> =
      a\<lparr>arooms := filter (\<lambda>x. fst x \<notin> fst ` set (e # es)) (arooms a)\<rparr>"
    by (auto intro!: filter_cong)
  show ?case
    using total_bind[OF 1, of "for_acc (delete_one mem_server ''room'') (map room_rec es)", OF 2]
    by (simp add: eq)
qed

lemma total_delete_all_venues_loop:
  assumes "\<forall>e \<in> set es. 0 < fst e"
  shows "total (\<lambda>s. represents s a)
     (for_acc (delete_one mem_server ''venue'') (map venue_rec es) n)
     (\<lambda>_ s. represents s
        (a\<lparr>avenues := filter (\<lambda>x. fst x \<notin> fst ` set es) (avenues a)\<rparr>))"
  using assms
proof (induction es arbitrary: a n)
  case Nil
  show ?case by (simp add: total_ret)
next
  case (Cons e es)
  let ?a1 = "a\<lparr>avenues := filter (\<lambda>x. fst x \<noteq> fst e) (avenues a)\<rparr>"
  have 1: "total (\<lambda>s. represents s a) (delete_one mem_server ''venue'' (venue_rec e) n)
     (\<lambda>_ s. represents s ?a1)"
    using Cons.prems by (intro total_delete_one_venue) simp
  have 2: "total (\<lambda>s. represents s ?a1)
     (for_acc (delete_one mem_server ''venue'') (map venue_rec es) n')
     (\<lambda>_ s. represents s (?a1\<lparr>avenues := filter (\<lambda>x. fst x \<notin> fst ` set es) (avenues ?a1)\<rparr>))"
    for n'
    using Cons.prems by (intro Cons.IH) simp
  have eq: "?a1\<lparr>avenues := filter (\<lambda>x. fst x \<notin> fst ` set es) (avenues ?a1)\<rparr> =
      a\<lparr>avenues := filter (\<lambda>x. fst x \<notin> fst ` set (e # es)) (avenues a)\<rparr>"
    by (auto intro!: filter_cong)
  show ?case
    using total_bind[OF 1, of "for_acc (delete_one mem_server ''venue'') (map venue_rec es)", OF 2]
    by (simp add: eq)
qed

lemma filter_own_ids: "filter (\<lambda>x. fst x \<notin> fst ` set xs) xs = []"
  by (simp add: filter_empty_conv)

lemma total_delete_all_events:
  assumes "consistent a"
  shows "total (\<lambda>s. represents s a) (delete_all_entities mem_server ''event'')
     (\<lambda>_ s. represents s (a\<lparr>aevents := []\<rparr>))"
proof -
  have p: "\<forall>e \<in> set (aevents a). 0 < fst e" using assms by (simp add: consistent_def)
  have l: "total (\<lambda>s. represents s a)
     (for_acc (delete_one mem_server ''event'') (map event_rec (aevents a)) 0)
     (\<lambda>_ s. represents s (a\<lparr>aevents := []\<rparr>))"
    using total_delete_all_events_loop[OF p, of a 0] by (simp only: filter_own_ids)
  have body: "total (\<lambda>s. represents s a)
     (if \<not> truthy (PList (map event_rec (aevents a))) then ret 0
      else py_bind (lift (py_iter (PList (map event_rec (aevents a)))))
             (\<lambda>es. for_acc (delete_one mem_server ''event'') es 0))
     (\<lambda>_ s. represents s (a\<lparr>aevents := []\<rparr>))"
  proof (cases "aevents a = []")
    case True
    have "a\<lparr>aevents := aevents a\<rparr> = a" by simp
    with True have e: "a\<lparr>aevents := []\<rparr> = a" by simp
    show ?thesis unfolding e using True by (simp add: total_def ret_def)
  next
    case False
    then show ?thesis by (simp add: bind_lift_Inr l)
  qed
  show ?thesis
    unfolding delete_all_entities_def
    apply (rule total_bind[OF total_get_all_entities_event])
    apply (rule total_gen)
    apply clarify
    apply (rule body)
    done
qed

lemma total_delete_all_rooms:
  assumes "consistent a"
  shows "total (\<lambda>s. represents s a) (delete_all_entities mem_server ''room'')
     (\<lambda>_ s. represents s (a\<lparr>arooms := []\<rparr>))"
proof -
  have p: "\<forall>e \<in> set (arooms a). 0 < fst e" using assms by (simp add: consistent_def)
  have l: "total (\<lambda>s. represents s a)
     (for_acc (delete_one mem_server ''room'') (map room_rec (arooms a)) 0)
     (\<lambda>_ s. represents s (a\<lparr>arooms := []\<rparr>))"
    using total_delete_all_rooms_loop[OF p, of a 0] by (simp only: filter_own_ids)
  have body: "total (\<lambda>s. represents s a)
     (if \<not> truthy (PList (map room_rec (arooms a))) then ret 0
      else py_bind (lift (py_iter (PList (map room_rec (arooms a)))))
             (\<lambda>es. for_acc (delete_one mem_server ''room'') es 0))
     (\<lambda>_ s. represents s (a\<lparr>arooms := []\<rparr>))"
  proof (cases "arooms a = []")
    case True
    have "a\<lparr>arooms := arooms a\<rparr> = a" by simp
    with True have e: "a\<lparr>arooms := []\<rparr> = a" by simp
    show ?thesis unfolding e using True by (simp add: total_def ret_def)
  next
    case False
    then show ?thesis by (simp add: bind_lift_Inr l)
  qed
  show ?thesis
    unfolding delete_all_entities_def
    apply (rule total_bind[OF total_get_all_entities_room])
    apply (rule total_gen)
    apply clarify
    apply (rule body)
    done
qed

lemma total_delete_all_venues:
  assumes "consistent a"
  shows "total (\<lambda>s. represents s a) (delete_all_entities mem_server ''venue'')
     (\<lambda>_ s. represents s (a\<lparr>avenues := []\<rparr>))"
proof -
  have p: "\<forall>e \<in> set (avenues a). 0 < fst e" using assms by (simp add: consistent_def)
  have l: "total (\<lambda>s. represents s a)
     (for_acc (delete_one mem_server ''venue'') (map venue_rec (avenues a)) 0)
     (\<lambda>_ s. represents s (a\<lparr>avenues := []\<rparr>))"
    using total_delete_all_venues_loop[OF p, of a 0] by (simp only: filter_own_ids)
  have body: "total (\<lambda>s. represents s a)
     (if \<not> truthy (PList (map venue_rec (avenues a))) then ret 0
      else py_bind (lift (py_iter (PList (map venue_rec (avenues a)))))
             (\<lambda>es. for_acc (delete_one mem_server ''venue'') es 0))
     (\<lambda>_ s. represents s (a\<lparr>avenues := []\<rparr>))"
  proof (cases "avenues a = []")
    case True
    have "a\<lparr>avenues := avenues a\<rparr> = a" by simp
    with True have e: "a\<lparr>avenues := []\<rparr> = a" by simp
    show ?thesis unfolding e using True by (simp add: total_def ret_def)
  next
    case False
    then show ?thesis by (simp add: bind_lift_Inr l)
  qed
  show ?thesis
    unfolding delete_all_entities_def
    apply (rule total_bind[OF total_get_all_entities_venue])
    apply (rule total_gen)
    apply clarify
    apply (rule body)
    done
qed

lemma total_cleaner_check_server:
  "total P (cleaner_check_server mem_server) (\<lambda>x s. x \<and> P s)"
  unfolding cleaner_check_server_def
  by (intro total_try total_bind[where R="\<lambda>r s. status_code r = 200 \<and> P s"] total_call total_ret)
     (simp_all add: mem_get_venues ok_def)

lemma consistent_without_events: "consistent a \<Longrightarrow> consistent (a\<lparr>aevents := []\<rparr>)"
  by (simp add: consistent_def)

lemma consistent_without_rooms: "consistent a \<Longrightarrow> consistent (a\<lparr>arooms := []\<rparr>)"
  by (simp add: consistent_def)

lemma total_cleanup_all_data:
  assumes "consistent a"
  shows "total (\<lambda>s. represents s a) (cleanup_all_data mem_server)
     (\<lambda>_ s. represents s (a\<lparr>aevents := [], arooms := [], avenues := []\<rparr>))"
proof -
  note c1 = consistent_without_events[OF assms]
  note c2 = consistent_without_rooms[OF c1]
  show ?thesis
    unfolding cleanup_all_data_def
    apply (rule total_bind[OF total_cleaner_check_server])
    apply (rule total_gen)
    apply simp
    apply (rule total_bind[OF total_delete_all_events[OF assms]])
    apply (rule total_bind[OF total_delete_all_rooms[OF c1]])
    apply (rule total_bind[OF total_delete_all_venues[OF c2]])
    apply (rule total_ret)
    apply simp
    done
qed

lemma cleanup_all_data_empties:
  assumes "well_formed s"
  shows "\<exists>n w'. cleanup_all_data mem_server \<lparr>srv = s, calls = cs\<rparr> = (Inr n, w') \<and>
     st_events (srv w') = [] \<and> st_rooms (srv w') = [] \<and> st_venues (srv w') = []"
proof -
  from assms obtain a where a: "represents s a" "consistent a"
    by (auto simp add: well_formed_def)
  let ?w = "\<lparr>srv = s, calls = cs\<rparr> :: (http_request, store) world"
  have "represents (srv ?w) a" using a(1) by simp
  with total_cleanup_all_data[OF a(2), unfolded total_def, rule_format, of ?w]
  obtain n w' where "cleanup_all_data mem_server ?w = (Inr n, w')"
    "represents (srv w') (a\<lparr>aevents := [], arooms := [], avenues := []\<rparr>)"
    by blast
  then show ?thesis by (simp add: represents_def)
qed

subsection \<open>The deletes of the cleanup orchestrator\<close>

text \<open>
  C2, as amended. In every run of \<open>cleanup_all_data\<close> the \<open>DELETE\<close> requests are deletes of
  events, then deletes of rooms, then deletes of venues: no room or venue is deleted before
  the last event delete, and no venue before the last room delete. In a run that returns,
  the requests are exactly: the probe, the listing of the events, a \<open>DELETE\<close> of every
  listed event that has an identifier, in the order of the listing, the listing of the
  rooms, a \<open>DELETE\<close> of every listed room, the listing of the venues, a \<open>DELETE\<close> of every
  listed venue; a listing is what the request returns at that moment, and the empty list
  when the request fails. On the reference datastore, from a consistent state, the run
  returns and no event, no room and no venue is left.
\<close>

theorem cleanup_deletes_listed_events_rooms_venues:
  "(\<exists>es rs vs. filter is_delete (calls (snd (cleanup_all_data send w))) =
      filter is_delete (calls w) @
      map (DELETE (entity_url ''event'')) es @
      map (DELETE (entity_url ''room'')) rs @
      map (DELETE (entity_url ''venue'')) vs) \<and>
   (fst (cleanup_all_data send w) = Inr n \<longrightarrow>
      (let w0 = snd (cleaner_check_server send w);
           w1 = snd (delete_all_entities send ''event'' w0);
           w2 = snd (delete_all_entities send ''room'' w1)
       in \<exists>events rooms venues.
           fst (get_all_entities send ''event'' w0) = Inr events \<and>
           fst (get_all_entities send ''room'' w1) = Inr rooms \<and>
           fst (get_all_entities send ''venue'' w2) = Inr venues \<and>
           calls (snd (cleanup_all_data send w)) =
             calls w @ [GET (api_base_url @ ''/venues''), GET (api_base_url @ ''/events'')] @
             map (DELETE (entity_url ''event'')) (entity_ids ''eventId'' (listed events)) @
             [GET (api_base_url @ ''/rooms'')] @
             map (DELETE (entity_url ''room'')) (entity_ids ''roomId'' (listed rooms)) @
             [GET (api_base_url @ ''/venues'')] @
             map (DELETE (entity_url ''venue'')) (entity_ids ''venueId'' (listed venues)))) \<and>
   (well_formed s \<longrightarrow>
      (\<exists>m w'. cleanup_all_data mem_server \<lparr>srv = s, calls = cs\<rparr> = (Inr m, w') \<and>
          st_events (srv w') = [] \<and> st_rooms (srv w') = [] \<and> st_venues (srv w') = []))"
proof (intro conjI impI)
  show "\<exists>es rs vs. filter is_delete (calls (snd (cleanup_all_data send w))) =
      filter is_delete (calls w) @
      map (DELETE (entity_url ''event'')) es @
      map (DELETE (entity_url ''room'')) rs @
      map (DELETE (entity_url ''venue'')) vs"
    by (rule cleanup_delete_order)
next
  assume "fst (cleanup_all_data send w) = Inr n"
  then show "let w0 = snd (cleaner_check_server send w);
           w1 = snd (delete_all_entities send ''event'' w0);
           w2 = snd (delete_all_entities send ''room'' w1)
       in \<exists>events rooms venues.
           fst (get_all_entities send ''event'' w0) = Inr events \<and>
           fst (get_all_entities send ''room'' w1) = Inr rooms \<and>
           fst (get_all_entities send ''venue'' w2) = Inr venues \<and>
           calls (snd (cleanup_all_data send w)) =
             calls w @ [GET (api_base_url @ ''/venues''), GET (api_base_url @ ''/events'')] @
             map (DELETE (entity_url ''event'')) (entity_ids ''eventId'' (listed events)) @
             [GET (api_base_url @ ''/rooms'')] @
             map (DELETE (entity_url ''room'')) (entity_ids ''roomId'' (listed rooms)) @
             [GET (api_base_url @ ''/venues'')] @
             map (DELETE (entity_url ''venue'')) (entity_ids ''venueId'' (listed venues))"
    by (rule cleanup_all_data_listed)
next
  assume "well_formed s"
  then show "\<exists>m w'. cleanup_all_data mem_server \<lparr>srv = s, calls = cs\<rparr> = (Inr m, w') \<and>
          st_events (srv w') = [] \<and> st_rooms (srv w') = [] \<and> st_venues (srv w') = []"
    by (rule cleanup_all_data_empties)
qed

text \<open>On the datastore in use, the requests of the run in full, and the empty datastore
  after it.\<close>

theorem cleanup_deletes_listed_events_rooms_venues_witness:
  "calls (snd (cleanup_all_data mem_server \<lparr>srv = used_store, calls = []\<rparr>)) =
     [GET (api_base_url @ ''/venues''), GET (api_base_url @ ''/events''),
      DELETE (entity_url ''event'') (PInt 5), DELETE (entity_url ''event'') (PInt 6),
      GET (api_base_url @ ''/rooms''),
      DELETE (entity_url ''room'') (PInt 3), DELETE (entity_url ''room'') (PInt 4),
      GET (api_base_url @ ''/venues''),
      DELETE (entity_url ''venue'') (PInt 1), DELETE (entity_url ''venue'') (PInt 2)] \<and>
   (\<exists>m w'. cleanup_all_data mem_server \<lparr>srv = used_store, calls = []\<rparr> = (Inr m, w') \<and>
      st_events (srv w') = [] \<and> st_rooms (srv w') = [] \<and> st_venues (srv w') = [])"
proof -
  let ?w = "\<lparr>srv = used_store, calls = []\<rparr> :: (http_request, store) world"
  let ?wa = "snd (cleaner_check_server mem_server ?w)"
  let ?wb = "snd (delete_all_entities mem_server ''event'' ?wa)"
  let ?wc = "snd (delete_all_entities mem_server ''room'' ?wb)"
  have h: "fst (cleanup_all_data mem_server ?w) = Inr 6" by code_simp
  note T = cleanup_deletes_listed_events_rooms_venues[of mem_server ?w 6 used_store "[]"]
  from T h obtain events rooms venues where
    l: "fst (get_all_entities mem_server ''event'' ?wa) = Inr events"
       "fst (get_all_entities mem_server ''room'' ?wb) = Inr rooms"
       "fst (get_all_entities mem_server ''venue'' ?wc) = Inr venues"
    and c: "calls (snd (cleanup_all_data mem_server ?w)) =
             calls ?w @ [GET (api_base_url @ ''/venues''), GET (api_base_url @ ''/events'')] @
             map (DELETE (entity_url ''event'')) (entity_ids ''eventId'' (listed events)) @
             [GET (api_base_url @ ''/rooms'')] @
             map (DELETE (entity_url ''room'')) (entity_ids ''roomId'' (listed rooms)) @
             [GET (api_base_url @ ''/venues'')] @
             map (DELETE (entity_url ''venue'')) (entity_ids ''venueId'' (listed venues))"
    unfolding Let_def by blast
  have "fst (get_all_entities mem_server ''event'' ?wa) = Inr (PList (st_events used_store))"
    by code_simp
  with l(1) have e: "events = PList (st_events used_store)" by simp
  have "fst (get_all_entities mem_server ''room'' ?wb) = Inr (PList (st_rooms used_store))"
    by code_simp
  with l(2) have r: "rooms = PList (st_rooms used_store)" by simp
  have "fst (get_all_entities mem_server ''venue'' ?wc) = Inr (PList (st_venues used_store))"
    by code_simp
  with l(3) have v: "venues = PList (st_venues used_store)" by simp
  have 1: "calls (snd (cleanup_all_data mem_server ?w)) =
     [GET (api_base_url @ ''/venues''), GET (api_base_url @ ''/events''),
      DELETE (entity_url ''event'') (PInt 5), DELETE (entity_url ''event'') (PInt 6),
      GET (api_base_url @ ''/rooms''),
      DELETE (entity_url ''room'') (PInt 3), DELETE (entity_url ''room'') (PInt 4),
      GET (api_base_url @ ''/venues''),
      DELETE (entity_url ''venue'') (PInt 1), DELETE (entity_url ''venue'') (PInt 2)]"
    unfolding c e r v by (simp add: used_store_def listed_def)
  from T well_formed_used_store have 2:
    "\<exists>m w'. cleanup_all_data mem_server ?w = (Inr m, w') \<and>
      st_events (srv w') = [] \<and> st_rooms (srv w') = [] \<and> st_venues (srv w') = []"
    by blast
  from 1 2 show ?thesis by (rule conjI)
qed

text \<open>
  C2, as stated, has all events removed before the rooms and the venues. When the listing
  of the events fails, the run deletes no event and goes on: it deletes every room and
  every venue, returns with the count 4, and both events are left in the datastore.
\<close>

theorem cleanup_failed_listing_counterexample:
  "fst (cleanup_all_data events_listing_down \<lparr>srv = used_store, calls = []\<rparr>) = Inr 4 \<and>
   filter is_delete
     (calls (snd (cleanup_all_data events_listing_down \<lparr>srv = used_store, calls = []\<rparr>))) =
     [DELETE (entity_url ''room'') (PInt 3), DELETE (entity_url ''room'') (PInt 4),
      DELETE (entity_url ''venue'') (PInt 1), DELETE (entity_url ''venue'') (PInt 2)] \<and>
   st_events (srv (snd (cleanup_all_data events_listing_down \<lparr>srv = used_store, calls = []\<rparr>))) =
     [PDict [(''eventId'', PInt 5), (''venueId'', PInt 2), (''eventName'', PStr ''Old night'')],
      PDict [(''eventId'', PInt 6), (''venueId'', PInt 1), (''eventName'', PStr ''Book club'')]] \<and>
   st_rooms (srv (snd (cleanup_all_data events_listing_down \<lparr>srv = used_store, calls = []\<rparr>))) = [] \<and>
   st_venues (srv (snd (cleanup_all_data events_listing_down \<lparr>srv = used_store, calls = []\<rparr>))) = []"
  by code_simp

end
